(* ===== verification/Prelude.thy ===== *)
theory Prelude imports Main "HOL-Library.Word" "HOL-Library.Char_ord" "HOL-Library.List_Lexorder"
begin

text \<open>
  Shared vocabulary of the development: the machine integer types of the Rust
  sources, the pieces of Rust's standard library the matcher uses on strings
  (\<open>Display\<close> of integers, \<open>str::parse\<close>, \<open>join\<close>, \<open>contains\<close>, UTF-8
  encoding of the literals), and generic lemmas on lists, maps and words.

  A Rust \<open>String\<close> is its UTF-8 byte sequence: HOL's \<open>string\<close>, whose
  characters are bytes. Non-ASCII literals of the sources are written as lists of
  code points and encoded with \<open>utf8\<close>.
\<close>

section \<open>Integer types\<close>

type_synonym i16 = "16 word"
type_synonym i32 = "32 word"
type_synonym i64 = "64 word"
type_synonym u64 = "64 word"
type_synonym uuid = "128 word"

text \<open>An \<open>f64\<close> is its 64-bit pattern; the arithmetic on it is a parameter of the model.\<close>

type_synonym f64 = "64 word"

section \<open>Rule collections\<close>

named_theorems run_simps \<open>how the sequential semantics evaluates each operation\<close>
named_theorems keep_intros \<open>operations every atomic step of which keeps an invariant\<close>

section \<open>Text\<close>

fun utf8_char :: "nat \<Rightarrow> string" where
  "utf8_char c =
     (if c < 128 then [char_of c]
      else if c < 2048 then [char_of (192 + c div 64), char_of (128 + c mod 64)]
      else if c < 65536 then
        [char_of (224 + c div 4096), char_of (128 + c div 64 mod 64), char_of (128 + c mod 64)]
      else
        [char_of (240 + c div 262144), char_of (128 + c div 4096 mod 64),
         char_of (128 + c div 64 mod 64), char_of (128 + c mod 64)])"

declare utf8_char.simps [simp del]

definition utf8 :: "nat list \<Rightarrow> string" where
  "utf8 cs = concat (map utf8_char cs)"

text \<open>Decimal \<open>Display\<close> of an unsigned and of a signed integer.\<close>

fun show_nat :: "nat \<Rightarrow> string" where
  "show_nat n = (if n < 10 then [char_of (48 + n)]
                 else show_nat (n div 10) @ [char_of (48 + n mod 10)])"

declare show_nat.simps [simp del]

definition show_int :: "int \<Rightarrow> string" where
  "show_int i = (if i < 0 then CHR ''-'' # show_nat (nat (- i)) else show_nat (nat i))"

definition show_i64 :: "i64 \<Rightarrow> string" where
  "show_i64 w = show_int (sint w)"

text \<open>Rust's \<open>str::parse::<i64>\<close>: an optional sign, at least one digit, no overflow.\<close>

definition is_digit :: "char \<Rightarrow> bool" where
  "is_digit c \<longleftrightarrow> 48 \<le> (of_char c :: nat) \<and> (of_char c :: nat) \<le> 57"

definition digit_val :: "char \<Rightarrow> nat" where
  "digit_val c = of_char c - 48"

definition parse_nat :: "string \<Rightarrow> nat option" where
  "parse_nat s = (if s = [] \<or> \<not> list_all is_digit s then None
                  else Some (fold (\<lambda>c n. 10 * n + digit_val c) s 0))"

fun parse_int :: "string \<Rightarrow> int option" where
  "parse_int [] = None"
| "parse_int (c # s) =
     (if c = CHR ''-'' then map_option (\<lambda>n. - int n) (parse_nat s)
      else if c = CHR ''+'' then map_option int (parse_nat s)
      else map_option int (parse_nat (c # s)))"

definition parse_i64 :: "string \<Rightarrow> i64 option" where
  "parse_i64 s = (case parse_int s of
       None \<Rightarrow> None
     | Some i \<Rightarrow> if - (2 ^ 63) \<le> i \<and> i < 2 ^ 63 then Some (word_of_int i) else None)"

text \<open>\<open>slice::join\<close> and \<open>str::contains\<close>.\<close>

fun join_str :: "string \<Rightarrow> string list \<Rightarrow> string" where
  "join_str sep [] = []"
| "join_str sep [x] = x"
| "join_str sep (x # y # ys) = x @ sep @ join_str sep (y # ys)"

fun starts_with :: "string \<Rightarrow> string \<Rightarrow> bool" where
  "starts_with [] s = True"
| "starts_with (c # cs) [] = False"
| "starts_with (c # cs) (d # ds) = (c = d \<and> starts_with cs ds)"

fun contains_str :: "string \<Rightarrow> string \<Rightarrow> bool" where
  "contains_str n [] = (n = [])"
| "contains_str n (c # cs) = (starts_with n (c # cs) \<or> contains_str n cs)"

subsection \<open>Decimal notation round trips\<close>

text \<open>Evaluation on numerals only: the defining equation would unfold for ever on a variable.\<close>

lemma digit_chars:
  "char_of (48 :: nat) = CHR ''0''"
  "char_of (49 :: nat) = CHR ''1''"
  "char_of (50 :: nat) = CHR ''2''"
  "char_of (51 :: nat) = CHR ''3''"
  "char_of (52 :: nat) = CHR ''4''"
  "char_of (53 :: nat) = CHR ''5''"
  "char_of (54 :: nat) = CHR ''6''"
  "char_of (55 :: nat) = CHR ''7''"
  "char_of (56 :: nat) = CHR ''8''"
  "char_of (57 :: nat) = CHR ''9''"
  by code_simp+

lemma show_nat_eval:
  "show_nat (numeral k) =
     (if (numeral k :: nat) < 10 then [char_of (48 + numeral k :: nat)]
      else show_nat (numeral k div 10) @ [char_of (48 + numeral k mod 10 :: nat)])"
  "show_nat 0 = ''0''" "show_nat (Suc 0) = ''1''"
  by (rule show_nat.simps)
    (simp_all add: show_nat.simps[of 0] show_nat.simps[of "Suc 0"] digit_chars)

lemma show_nat_digits: "list_all is_digit (show_nat n)"
proof (induction n rule: show_nat.induct)
  case (1 n)
  have d: "m < 10 \<Longrightarrow> is_digit (char_of (48 + m))" for m :: nat
    by (simp add: is_digit_def)
  show ?case
  proof (cases "n < 10")
    case True
    then show ?thesis by (subst show_nat.simps) (simp add: d)
  next
    case False
    with 1 show ?thesis by (subst show_nat.simps) (simp add: d)
  qed
qed

lemma show_nat_nonempty [simp]: "show_nat n \<noteq> []"
  by (subst show_nat.simps) simp

lemma show_nat_value: "fold (\<lambda>c n. 10 * n + digit_val c) (show_nat n) 0 = n"
proof (induction n rule: show_nat.induct)
  case (1 n)
  have d: "m < 10 \<Longrightarrow> digit_val (char_of (48 + m)) = m" for m :: nat
    by (simp add: digit_val_def)
  show ?case
  proof (cases "n < 10")
    case True
    then show ?thesis by (subst show_nat.simps) (simp add: d)
  next
    case False
    with 1 show ?thesis by (subst show_nat.simps) (simp add: d)
  qed
qed

lemma parse_show_nat: "parse_nat (show_nat n) = Some n"
  by (simp add: parse_nat_def show_nat_digits show_nat_value)

lemma show_nat_hd: "show_nat n = c # cs \<Longrightarrow> c \<noteq> CHR ''-'' \<and> c \<noteq> CHR ''+''"
  using show_nat_digits[of n] by (auto simp: is_digit_def)

lemma parse_show_int: "parse_int (show_int i) = Some i"
proof (cases "i < 0")
  case True
  then show ?thesis by (simp add: show_int_def parse_show_nat)
next
  case False
  obtain c cs where "show_nat (nat i) = c # cs"
    by (cases "show_nat (nat i)") auto
  with False show ?thesis
    using show_nat_hd[of "nat i" c cs] parse_show_nat[of "nat i"]
    by (simp add: show_int_def)
qed

lemma parse_show_i64 [simp]: "parse_i64 (show_i64 w) = Some w"
proof -
  have "- (2 ^ 63) \<le> sint w" "sint w < 2 ^ 63"
    using sint_greater_eq[of w] sint_less[of w] by simp_all
  then show ?thesis
    by (simp add: parse_i64_def show_i64_def parse_show_int)
qed

lemma show_i64_inject [simp]: "show_i64 v = show_i64 w \<longleftrightarrow> v = w"
  by (metis option.inject parse_show_i64)

section \<open>Generic lemmas\<close>

lemma starts_with_append: "starts_with p (p @ s)"
  by (induction p) auto

lemma contains_append: "n \<noteq> [] \<Longrightarrow> contains_str n (xs @ n @ ys)"
proof (induction xs)
  case Nil
  then obtain c cs where "n = c # cs" by (cases n) auto
  then show ?case using starts_with_append[of n ys] by simp
next
  case (Cons x xs)
  then show ?case by simp
qed

lemma sint_diff_exact:
  fixes a b :: i64
  assumes "- (2 ^ 63) \<le> sint a - sint b" "sint a - sint b < 2 ^ 63"
  shows "sint (a - b) = sint a - sint b"
  using assms by (simp add: sint_word_ariths signed_take_bit_int_eq_self)

lemma sint_of_nat_small: "n < 2 ^ 63 \<Longrightarrow> sint (of_nat n :: i64) = int n"
proof -
  assume "n < 2 ^ 63"
  then have "signed_take_bit 63 (int n) = int n" by (simp add: signed_take_bit_int_eq_self)
  moreover have "(of_nat n :: i64) = word_of_int (int n)" by simp
  ultimately show ?thesis using sint_sbintrunc'[where 'a = 64, of "int n"] by simp
qed

lemma i64_eq_iff_sint: "(a :: i64) = b \<longleftrightarrow> sint a = sint b"
proof
  assume "sint a = sint b"
  then have "word_of_int (sint a) = (word_of_int (sint b) :: i64)" by simp
  then show "a = b" by simp
qed simp

end
