(* ===== verification/Async.thy ===== *)
theory Async imports Prelude
begin

text \<open>
  Rust's \<open>async fn\<close>s as resumptions. A computation is either \<open>Ready\<close> with its
  \<open>Result\<close> (\<open>Inl\<close> is \<open>Err\<close>) or \<open>Await\<close>s one atomic operation on the shared
  state and goes on with what it returns: the points between two \<open>Await\<close>s are where
  the tokio runtime may run another task. One definition of a handler therefore
  has two semantics: \<open>run\<close> executes it alone, \<open>interleave\<close> executes a list of
  tasks over one shared state, in any order of their atomic steps.

  \<open>keeps I Q p\<close> says that every atomic step of \<open>p\<close> keeps the invariant \<open>I\<close> and
  that an \<open>Ok\<close> result satisfies \<open>Q\<close>; it gives preservation under both semantics.
  \<open>hoare\<close> is the sequential Hoare triple with a postcondition for \<open>Err\<close>.
\<close>

datatype (dead 's, 'e, 'a) proc =
    Ready "'e + 'a"
  | Await "'s \<Rightarrow> ('s, 'e, 'a) proc \<times> 's"

section \<open>Combinators\<close>

abbreviation ok :: "'a \<Rightarrow> ('s, 'e, 'a) proc" where
  "ok x \<equiv> Ready (Inr x)"

abbreviation err :: "'e \<Rightarrow> ('s, 'e, 'a) proc" where
  "err e \<equiv> Ready (Inl e)"

text \<open>One atomic operation, and \<open>m.await?\<close> followed by the rest of the body.\<close>

definition atomic :: "('s \<Rightarrow> ('e + 'a) \<times> 's) \<Rightarrow> ('s, 'e, 'a) proc" where
  "atomic f = Await (\<lambda>s. case f s of (r, s') \<Rightarrow> (Ready r, s'))"

primrec and_then ::
  "('s, 'e, 'a) proc \<Rightarrow> ('a \<Rightarrow> ('s, 'e, 'b) proc) \<Rightarrow> ('s, 'e, 'b) proc" where
  "and_then (Ready r) f = (case r of Inl e \<Rightarrow> Ready (Inl e) | Inr x \<Rightarrow> f x)"
| "and_then (Await g) f = Await (\<lambda>s. map_prod (\<lambda>p. and_then p f) id (g s))"

text \<open>
  \<open>attempt\<close> hands the \<open>Result\<close> of an operation to the program (\<open>match\<close>,
  \<open>if let Err\<close>, \<open>let _ =\<close>); \<open>map_err\<close> is the error conversion of \<open>?\<close>.
\<close>

primrec attempt :: "('s, 'e, 'a) proc \<Rightarrow> ('s, 'f, 'e + 'a) proc" where
  "attempt (Ready r) = Ready (Inr r)"
| "attempt (Await g) = Await (\<lambda>s. map_prod attempt id (g s))"

primrec map_err :: "('e \<Rightarrow> 'f) \<Rightarrow> ('s, 'e, 'a) proc \<Rightarrow> ('s, 'f, 'a) proc" where
  "map_err h (Ready r) = Ready (map_sum h id r)"
| "map_err h (Await g) = Await (\<lambda>s. map_prod (map_err h) id (g s))"

definition ignore :: "('s, 'e, 'a) proc \<Rightarrow> ('s, 'f, unit) proc" where
  "ignore p = and_then (attempt p) (\<lambda>_. ok ())"

primrec for_each :: "'x list \<Rightarrow> ('x \<Rightarrow> ('s, 'e, unit) proc) \<Rightarrow> ('s, 'e, unit) proc" where
  "for_each [] f = ok ()"
| "for_each (x # xs) f = and_then (f x) (\<lambda>_. for_each xs f)"

lemma proc_induct [case_names Ready Await]:
  assumes "\<And>r. P (Ready r)" and "\<And>g. (\<And>s. P (fst (g s))) \<Longrightarrow> P (Await g)"
  shows "P p"
proof (induction p)
  case (Ready r)
  show ?case by (rule assms(1))
next
  case (Await g)
  have "P (fst (g s))" for s
    by (rule Await[of "g s"]) (auto simp: fsts.simps prod_eq_iff)
  then show ?case by (rule assms(2))
qed

lemma map_prod_pair: "map_prod f id x = (f (fst x), snd x)"
  by (cases x) simp

section \<open>Sequential semantics\<close>

primrec run :: "('s, 'e, 'a) proc \<Rightarrow> 's \<Rightarrow> ('e + 'a) \<times> 's" where
  "run (Ready r) = (\<lambda>s. (r, s))"
| "run (Await g) = (\<lambda>s. case map_prod run id (g s) of (h, s') \<Rightarrow> h s')"

lemma run_Await: "run (Await g) s = run (fst (g s)) (snd (g s))"
  by (simp add: map_prod_pair)

declare run.simps(2) [simp del]

lemma run_atomic [run_simps]: "run (atomic f) s = f s"
  by (simp add: atomic_def run_Await split: prod.splits)

lemma run_and_then [run_simps]:
  "run (and_then p f) s =
     (case run p s of (Inl e, s') \<Rightarrow> (Inl e, s') | (Inr x, s') \<Rightarrow> run (f x) s')"
  by (induction p arbitrary: s rule: proc_induct)
    (simp_all add: run_Await map_prod_pair split: sum.splits)

lemma run_attempt [run_simps]: "run (attempt p) s = (case run p s of (r, s') \<Rightarrow> (Inr r, s'))"
  by (induction p arbitrary: s rule: proc_induct) (simp_all add: run_Await map_prod_pair)

lemma run_map_err [run_simps]:
  "run (map_err h p) s = (case run p s of (r, s') \<Rightarrow> (map_sum h id r, s'))"
  by (induction p arbitrary: s rule: proc_induct) (simp_all add: run_Await map_prod_pair)

lemma run_ignore [run_simps]: "run (ignore p) s = (Inr (), snd (run p s))"
  by (simp add: ignore_def run_and_then run_attempt split: prod.splits)

lemmas [run_simps] = run.simps(1) for_each.simps

lemma run_and_then_Inr:
  "run (and_then p f) s = (Inr y, t) \<longleftrightarrow>
     (\<exists>x u. run p s = (Inr x, u) \<and> run (f x) u = (Inr y, t))"
  by (auto simp: run_and_then split: prod.splits sum.splits)

section \<open>Invariants of every atomic step\<close>

primrec keeps :: "('s \<Rightarrow> bool) \<Rightarrow> ('a \<Rightarrow> bool) \<Rightarrow> ('s, 'e, 'a) proc \<Rightarrow> bool" where
  "keeps I Q (Ready r) = (case r of Inl e \<Rightarrow> True | Inr x \<Rightarrow> Q x)"
| "keeps I Q (Await g) =
     (\<forall>s. I s \<longrightarrow> (case map_prod (keeps I Q) id (g s) of (k, s') \<Rightarrow> k \<and> I s'))"

lemma keeps_Await:
  "keeps I Q (Await g) \<longleftrightarrow> (\<forall>s. I s \<longrightarrow> keeps I Q (fst (g s)) \<and> I (snd (g s)))"
  by (simp add: map_prod_pair)

declare keeps.simps(2) [simp del]

lemma keeps_ok [keep_intros]: "Q x \<Longrightarrow> keeps I Q (ok x)"
  by simp

lemma keeps_err [keep_intros]: "keeps I Q (err e)"
  by simp

lemma keeps_atomic:
  "(\<And>s r s'. I s \<Longrightarrow> f s = (r, s') \<Longrightarrow> I s' \<and> (\<forall>x. r = Inr x \<longrightarrow> Q x)) \<Longrightarrow> keeps I Q (atomic f)"
  by (fastforce simp: atomic_def keeps_Await split: prod.splits sum.splits)

lemma keeps_weaken: "keeps I Q p \<Longrightarrow> (\<And>x. Q x \<Longrightarrow> R x) \<Longrightarrow> keeps I R p"
  by (induction p rule: proc_induct) (auto simp: keeps_Await split: sum.splits)

lemma keeps_and_then:
  "keeps I Q p \<Longrightarrow> (\<And>x. Q x \<Longrightarrow> keeps I R (f x)) \<Longrightarrow> keeps I R (and_then p f)"
  by (induction p rule: proc_induct)
    (auto simp: keeps_Await map_prod_pair split: sum.splits)

lemma keeps_attempt:
  "keeps I Q p \<Longrightarrow> keeps I (\<lambda>r. case r of Inl e \<Rightarrow> True | Inr x \<Rightarrow> Q x) (attempt p)"
  by (induction p rule: proc_induct) (auto simp: keeps_Await map_prod_pair)

lemma keeps_map_err: "keeps I Q p \<Longrightarrow> keeps I Q (map_err h p)"
  by (induction p rule: proc_induct) (auto simp: keeps_Await map_prod_pair split: sum.splits)

lemma keeps_ignore: "keeps I Q p \<Longrightarrow> keeps I (\<lambda>_. True) (ignore p)"
  unfolding ignore_def by (rule keeps_and_then[OF keeps_attempt]) auto

lemma keeps_for_each:
  "(\<And>x. x \<in> set xs \<Longrightarrow> keeps I (\<lambda>_. True) (f x)) \<Longrightarrow> keeps I (\<lambda>_. True) (for_each xs f)"
  by (induction xs) (auto intro: keeps_and_then)

lemma keeps_run:
  "keeps I Q p \<Longrightarrow> I s \<Longrightarrow> run p s = (r, s') \<Longrightarrow> I s' \<and> (\<forall>x. r = Inr x \<longrightarrow> Q x)"
  by (induction p arbitrary: s rule: proc_induct)
    (auto simp: keeps_Await run_Await split: sum.splits)

lemma keeps_conj: "keeps I Q p \<Longrightarrow> keeps J R p \<Longrightarrow> keeps (\<lambda>s. I s \<and> J s) (\<lambda>x. Q x \<and> R x) p"
  by (induction p rule: proc_induct) (auto simp: keeps_Await split: sum.splits)

section \<open>Interleaving\<close>

text \<open>
  Tasks spawned on the runtime: a step lets any task perform its next atomic
  operation. A finished task stays in the list with its result.
\<close>

inductive interleave ::
  "('s, 'e, 'a) proc list \<times> 's \<Rightarrow> ('s, 'e, 'a) proc list \<times> 's \<Rightarrow> bool" where
  task_step: "i < length ps \<Longrightarrow> ps ! i = Await g \<Longrightarrow> g s = (p, s') \<Longrightarrow>
     interleave (ps, s) (ps[i := p], s')"

inductive_cases interleaveE: "interleave (ps, s) (ps', s')"

lemma interleave_keeps:
  assumes "interleave\<^sup>*\<^sup>* (ps, s) (ps', s')" and "I s" and "\<forall>p \<in> set ps. keeps I Q p"
  shows "I s' \<and> (\<forall>p \<in> set ps'. keeps I Q p)"
  using assms
proof (induction "(ps', s')" arbitrary: ps' s' rule: rtranclp_induct)
  case base
  then show ?case by simp
next
  case (step qt)
  obtain qs t where qt: "qt = (qs, t)" by (cases qt)
  from step have IH: "I t" "\<forall>p \<in> set qs. keeps I Q p" unfolding qt by blast+
  from step(2) obtain i g p where i: "i < length qs" "qs ! i = Await g" "g t = (p, s')"
    "ps' = qs[i := p]"
    unfolding qt by (auto elim: interleaveE)
  from i IH have "keeps I Q (Await g)" by (metis nth_mem)
  with IH(1) i(3) have "keeps I Q p \<and> I s'" unfolding keeps_Await by (metis fst_conv snd_conv)
  with IH(2) i(4) show ?case using set_update_subset_insert[of qs i p] by blast
qed

text \<open>A task may run a first part of its body without being interrupted, or all of it.\<close>

lemma interleave_part:
  assumes "i < length ps" and "ps ! i = and_then p f" and "run p s = (Inr x, s')"
  shows "interleave\<^sup>*\<^sup>* (ps, s) (ps[i := f x], s')"
  using assms
proof (induction p arbitrary: ps s rule: proc_induct)
  case (Ready r)
  then have "ps[i := f x] = ps" "s' = s" by (auto intro: list_update_same_conv[THEN iffD2])
  then show ?case by simp
next
  case (Await g)
  have next_state: "run (fst (g s)) (snd (g s)) = (Inr x, s')" using Await.prems by (simp add: run_Await)
  have "interleave (ps, s) (ps[i := and_then (fst (g s)) f], snd (g s))"
    using Await.prems by (intro interleave.task_step[where g = "\<lambda>s. map_prod (\<lambda>p. and_then p f) id (g s)"])
      (simp_all add: map_prod_pair)
  moreover have "interleave\<^sup>*\<^sup>* (ps[i := and_then (fst (g s)) f], snd (g s)) (ps[i := f x], s')"
  proof -
    have "interleave\<^sup>*\<^sup>* (ps[i := and_then (fst (g s)) f], snd (g s))
        (ps[i := and_then (fst (g s)) f, i := f x], s')"
      by (rule Await.IH) (use Await.prems(1) next_state in simp_all)
    then show ?thesis by simp
  qed
  ultimately show ?case by (rule converse_rtranclp_into_rtranclp)
qed

lemma interleave_first:
  "q = and_then p f \<Longrightarrow> run p s = (Inr x, s') \<Longrightarrow> interleave\<^sup>*\<^sup>* (q # ps, s) (f x # ps, s')"
  using interleave_part[of 0 "q # ps" p f s x s'] by simp

lemma interleave_run:
  assumes "i < length ps" and "run (ps ! i) s = (r, s')"
  shows "interleave\<^sup>*\<^sup>* (ps, s) (ps[i := Ready r], s')"
  using assms
proof (induction "ps ! i" arbitrary: ps s rule: proc_induct)
  case (Ready q)
  then have "ps[i := Ready r] = ps" "s' = s" by (metis list_update_id prod.inject run.simps(1))+
  then show ?case by simp
next
  case (Await g)
  have g: "ps ! i = Await g" using Await.hyps(2) by simp
  have "run (fst (g s)) (snd (g s)) = (r, s')" using Await.prems g by (simp add: run_Await)
  then have "interleave\<^sup>*\<^sup>* (ps[i := fst (g s)], snd (g s)) (ps[i := Ready r], s')"
  proof -
    assume "run (fst (g s)) (snd (g s)) = (r, s')"
    then have "interleave\<^sup>*\<^sup>* (ps[i := fst (g s)], snd (g s)) (ps[i := fst (g s), i := Ready r], s')"
      by (intro Await.hyps(1)) (use Await.prems(1) in simp_all)
    then show ?thesis by simp
  qed
  moreover have "interleave (ps, s) (ps[i := fst (g s)], snd (g s))"
    using Await.prems(1) g by (intro interleave.task_step[where g = g]) simp_all
  ultimately show ?case by (rule converse_rtranclp_into_rtranclp[rotated])
qed

text \<open>An executable scheduler: the list says which task moves next.\<close>

fun schedule :: "nat list \<Rightarrow> ('s, 'e, 'a) proc list \<times> 's \<Rightarrow> ('s, 'e, 'a) proc list \<times> 's" where
  "schedule [] c = c"
| "schedule (i # is) (ps, s) =
     (if i < length ps then
        (case ps ! i of
           Ready r \<Rightarrow> schedule is (ps, s)
         | Await g \<Rightarrow> (case g s of (p, s') \<Rightarrow> schedule is (ps[i := p], s')))
      else schedule is (ps, s))"

lemma schedule_interleave: "interleave\<^sup>*\<^sup>* c (schedule is c)"
proof (induction "is" c rule: schedule.induct)
  case (1 c)
  then show ?case by simp
next
  case (2 i "is" ps s)
  show ?case
  proof (cases "i < length ps \<and> (\<exists>g. ps ! i = Await g)")
    case True
    then obtain g where g: "i < length ps" "ps ! i = Await g" by blast
    obtain p s' where p: "g s = (p, s')" by (cases "g s")
    from g p have "interleave (ps, s) (ps[i := p], s')" by (rule interleave.task_step)
    moreover have "interleave\<^sup>*\<^sup>* (ps[i := p], s') (schedule is (ps[i := p], s'))"
      using 2(2)[OF g(1) g(2), of p s'] p by simp
    ultimately show ?thesis using g p by (simp add: converse_rtranclp_into_rtranclp)
  next
    case False
    with 2 show ?thesis by (cases "ps ! i") auto
  qed
qed

section \<open>A bounded set of spawned tasks\<close>

text \<open>
  \<open>for x in xs { set.spawn(task(x)); if set.len() >= limit { set.join_next().await; } }\<close>
  \<open>while set.join_next().await.is_some() {}\<close>: what is left to spawn, the tasks in the set, the
  shared state. A task is spawned only while the set is below the limit; a finished task is taken
  out of the set when the set is full or when nothing is left to spawn; in between the tasks in the
  set move in any order.
\<close>

inductive joinset ::
  "nat \<Rightarrow> ('x \<Rightarrow> ('s, 'e, unit) proc) \<Rightarrow> 'x list \<times> ('s, 'e, unit) proc list \<times> 's \<Rightarrow>
     'x list \<times> ('s, 'e, unit) proc list \<times> 's \<Rightarrow> bool"
  for limit task where
  js_spawn: "length live < limit \<Longrightarrow> joinset limit task (x # todo, live, s) (todo, live @ [task x], s)"
| js_work: "i < length live \<Longrightarrow> live ! i = Await g \<Longrightarrow> g s = (p, s') \<Longrightarrow>
     joinset limit task (todo, live, s) (todo, live[i := p], s')"
| js_join: "i < length live \<Longrightarrow> live ! i = Ready r \<Longrightarrow> limit \<le> length live \<or> todo = [] \<Longrightarrow>
     joinset limit task (todo, live, s) (todo, take i live @ drop (Suc i) live, s)"

inductive_cases joinsetE: "joinset limit task (todo, live, s) c"

lemma joinset_bound:
  "(joinset limit task)\<^sup>*\<^sup>* c c' \<Longrightarrow> length (fst (snd c)) \<le> limit \<Longrightarrow> length (fst (snd c')) \<le> limit"
proof (induction rule: rtranclp_induct)
  case base
  then show ?case .
next
  case (step c' c'')
  note IH = step.IH[OF step.prems]
  from step(2) show ?case
  proof (cases rule: joinset.cases)
    case (js_join i live r todo s)
    then have "length (take i live @ drop (Suc i) live) \<le> length live" by simp
    with js_join IH show ?thesis by (simp del: length_append)
  qed (use IH in simp_all)
qed

text \<open>The set never gets stuck before all its tasks are spawned, finished and joined.\<close>

lemma joinset_progress:
  assumes "0 < limit" and "todo \<noteq> [] \<or> live \<noteq> []"
  shows "\<exists>c. joinset limit task (todo, live, s) c"
proof (cases "length live < limit \<and> todo \<noteq> []")
  case True
  then obtain x xs where "todo = x # xs" "length live < limit" by (cases todo) auto
  then show ?thesis by (metis js_spawn)
next
  case False
  with assms have live: "live \<noteq> []" "limit \<le> length live \<or> todo = []" by auto
  then obtain p ps where p: "live = p # ps" by (cases live) auto
  show ?thesis
  proof (cases p)
    case (Ready r)
    with p live have "joinset limit task (todo, live, s) (todo, take 0 live @ drop (Suc 0) live, s)"
      by (intro js_join) auto
    then show ?thesis by (rule exI)
  next
    case (Await g)
    obtain q s' where "g s = (q, s')" by (cases "g s")
    with p Await have "joinset limit task (todo, live, s) (todo, live[0 := q], s')"
      by (intro js_work[where g = g]) auto
    then show ?thesis by (rule exI)
  qed
qed

text \<open>Running one spawned task to its end, and then all of them one after the other.\<close>

lemma joinset_run_last:
  "run p s = (r, s') \<Longrightarrow>
     (joinset limit task)\<^sup>*\<^sup>* (todo, live @ [p], s) (todo, live @ [Ready r], s')"
proof (induction p arbitrary: s rule: proc_induct)
  case (Ready q)
  then show ?case by simp
next
  case (Await g)
  have "run (fst (g s)) (snd (g s)) = (r, s')" using Await.prems by (simp add: run_Await)
  from Await.IH[OF this] have
    "(joinset limit task)\<^sup>*\<^sup>* (todo, live @ [fst (g s)], snd (g s)) (todo, live @ [Ready r], s')" .
  moreover have "joinset limit task (todo, live @ [Await g], s) (todo, live @ [fst (g s)], snd (g s))"
    using js_work[of "length live" "live @ [Await g]" g s "fst (g s)" "snd (g s)"] by auto
  ultimately show ?case by (rule converse_rtranclp_into_rtranclp[rotated])
qed

lemma joinset_drain:
  assumes "\<forall>p \<in> set live. \<exists>r. p = Ready r"
  shows "(joinset limit task)\<^sup>*\<^sup>* ([], live, s) ([], [], s)"
  using assms
proof (induction live)
  case Nil
  then show ?case by simp
next
  case (Cons p live)
  then obtain r where "p = Ready r" by auto
  then have "joinset limit task ([], p # live, s) ([], live, s)"
    using js_join[of 0 "p # live" r limit "[]"] by auto
  with Cons show ?case by (auto intro: converse_rtranclp_into_rtranclp)
qed

lemma joinset_sequential:
  assumes "0 < limit" and "\<And>x s. \<exists>s'. run (task x) s = (Inr (), s')"
    and "\<forall>p \<in> set live. \<exists>r. p = Ready r" and "length live < limit"
  shows "(joinset limit task)\<^sup>*\<^sup>* (xs, live, s) ([], [], snd (run (for_each xs task) s))"
  using assms(3,4)
proof (induction xs arbitrary: live s)
  case Nil
  then show ?case by (simp add: joinset_drain)
next
  case (Cons x xs)
  obtain s' where s': "run (task x) s = (Inr (), s')" using assms(2) by blast
  have spawned: "(joinset limit task)\<^sup>*\<^sup>* (x # xs, live, s) (xs, live @ [Ready (Inr ())], s')"
    using js_spawn[OF Cons.prems(2)] joinset_run_last[OF s']
    by (rule converse_rtranclp_into_rtranclp)
  have end_state: "snd (run (for_each (x # xs) task) s) = snd (run (for_each xs task) s')"
    by (simp add: run_and_then s')
  show ?case
  proof (cases "Suc (length live) < limit")
    case True
    then have "(joinset limit task)\<^sup>*\<^sup>* (xs, live @ [Ready (Inr ())], s')
        ([], [], snd (run (for_each xs task) s'))"
      using Cons.IH[of "live @ [Ready (Inr ())]" s'] Cons.prems(1) by auto
    with spawned end_state show ?thesis by simp
  next
    case False
    then have "joinset limit task (xs, live @ [Ready (Inr ())], s') (xs, live, s')"
      using js_join[of "length live" "live @ [Ready (Inr ())]" "Inr ()" limit xs] by auto
    moreover have "(joinset limit task)\<^sup>*\<^sup>* (xs, live, s') ([], [], snd (run (for_each xs task) s'))"
      using Cons.IH Cons.prems by blast
    ultimately show ?thesis using spawned end_state by simp
  qed
qed

section \<open>Hoare triples of the sequential semantics\<close>

definition hoare ::
  "('s \<Rightarrow> bool) \<Rightarrow> ('s, 'e, 'a) proc \<Rightarrow> ('a \<Rightarrow> 's \<Rightarrow> bool) \<Rightarrow> ('e \<Rightarrow> 's \<Rightarrow> bool) \<Rightarrow> bool" where
  "hoare P p Q E \<longleftrightarrow>
     (\<forall>s. P s \<longrightarrow> (case run p s of (Inr x, t) \<Rightarrow> Q x t | (Inl e, t) \<Rightarrow> E e t))"

lemma hoareI:
  assumes "\<And>s x t. P s \<Longrightarrow> run p s = (Inr x, t) \<Longrightarrow> Q x t"
    and "\<And>s e t. P s \<Longrightarrow> run p s = (Inl e, t) \<Longrightarrow> E e t"
  shows "hoare P p Q E"
  using assms by (auto simp: hoare_def split: prod.splits sum.splits)

lemma hoare_Inr: "hoare P p Q E \<Longrightarrow> P s \<Longrightarrow> run p s = (Inr x, t) \<Longrightarrow> Q x t"
  by (force simp: hoare_def)

lemma hoare_Inl: "hoare P p Q E \<Longrightarrow> P s \<Longrightarrow> run p s = (Inl e, t) \<Longrightarrow> E e t"
  by (force simp: hoare_def)

lemma hoare_pre: "hoare P' p Q E \<Longrightarrow> (\<And>s. P s \<Longrightarrow> P' s) \<Longrightarrow> hoare P p Q E"
  by (auto simp: hoare_def)

lemma hoare_post:
  "hoare P p Q' E' \<Longrightarrow> (\<And>x s. Q' x s \<Longrightarrow> Q x s) \<Longrightarrow> (\<And>e s. E' e s \<Longrightarrow> E e s) \<Longrightarrow> hoare P p Q E"
  by (fastforce simp: hoare_def split: prod.splits sum.splits)

lemma hoare_ok: "(\<And>s. P s \<Longrightarrow> Q x s) \<Longrightarrow> hoare P (ok x) Q E"
  by (simp add: hoare_def)

lemma hoare_and_then:
  "hoare P p R E \<Longrightarrow> (\<And>x. hoare (R x) (f x) Q E) \<Longrightarrow> hoare P (and_then p f) Q E"
  by (rule hoareI)
    (auto simp: run_and_then split: prod.splits sum.splits dest: hoare_Inr hoare_Inl)

lemma hoare_ignore:
  "hoare P p (\<lambda>_. Q) (\<lambda>_. Q) \<Longrightarrow> hoare P (ignore p) (\<lambda>_. Q) E"
  by (rule hoareI)
    (metis hoare_Inl hoare_Inr old.sum.exhaust prod.collapse prod.inject run_ignore, simp add: run_ignore)

lemma hoare_map_err:
  "hoare P p Q (\<lambda>e. E (h e)) \<Longrightarrow> hoare P (map_err h p) Q E"
  by (rule hoareI)
    (auto simp: run_map_err map_sum_def split: prod.splits sum.splits dest: hoare_Inr hoare_Inl)

lemma hoare_conj:
  "hoare P p Q (\<lambda>_ _. True) \<Longrightarrow> hoare P' p Q' (\<lambda>_ _. True) \<Longrightarrow>
     hoare (\<lambda>s. P s \<and> P' s) p (\<lambda>x s. Q x s \<and> Q' x s) (\<lambda>_ _. True)"
  by (rule hoareI) (auto dest: hoare_Inr)

lemma hoare_for_each:
  "(\<And>x. x \<in> set xs \<Longrightarrow> hoare P (f x) (\<lambda>_. P) E) \<Longrightarrow> hoare P (for_each xs f) (\<lambda>_. P) E"
  by (induction xs) (auto intro: hoare_ok hoare_and_then)

end
