(* ===== verification/Model.thy ===== *)
theory Model imports Prelude
begin

text \<open>
  The data model and the pure reconciliation logic of \<open>src/matcher/src/model.rs\<close>:
  sources, payment events, the partial transaction (a reconciliation window), the
  incident kinds, \<open>check_invariants\<close>, \<open>build_details\<close> and the pub/sub events.

  \<^item> A \<open>HashMap<Source, PaymentEvent>\<close> is a map; the order in which it is iterated
    is not specified by the standard library and is a parameter \<open>ord\<close> of the
    definitions that iterate (\<open>iter_order\<close> says what any order satisfies).
  \<^item> \<open>i64\<close> arithmetic wraps, as in the release profile the Dockerfile builds.
  \<^item> Field names shared by several structs carry the struct's initials.
\<close>

section \<open>Sources\<close>

datatype source = Merchant | Gateway | Bank

fun source_name :: "source \<Rightarrow> string" where
  "source_name Merchant = ''merchant''"
| "source_name Gateway = ''gateway''"
| "source_name Bank = ''bank''"

definition source_all :: "source list" where
  "source_all = [Merchant, Gateway, Bank]"

lemma set_source_all [simp]: "set source_all = UNIV"
  by (auto simp: source_all_def intro: source.exhaust)

lemma distinct_source_all [simp]: "distinct source_all"
  by (simp add: source_all_def)

lemma source_name_inject [simp]: "source_name s = source_name t \<longleftrightarrow> s = t"
  by (cases s; cases t) simp_all

text \<open>Sources are enumerable, and ordered by their display name, as \<open>sources_seen\<close> sorts them.\<close>

lemma source_forall: "(\<forall>s. P s) \<longleftrightarrow> P Merchant \<and> P Gateway \<and> P Bank"
  by (metis source.exhaust)

lemma source_exists: "(\<exists>s. P s) \<longleftrightarrow> P Merchant \<or> P Gateway \<or> P Bank"
  by (metis source.exhaust)

instantiation source :: enum
begin

definition "enum_source = source_all"
definition "enum_all_source P \<longleftrightarrow> P Merchant \<and> P Gateway \<and> P Bank"
definition "enum_ex_source P \<longleftrightarrow> P Merchant \<or> P Gateway \<or> P Bank"

instance
  by standard
    (auto simp: enum_source_def enum_all_source_def enum_ex_source_def source_forall source_exists)

end

instantiation source :: linorder
begin

definition "less_eq_source s t \<longleftrightarrow> source_name s \<le> source_name t"
definition "less_source s t \<longleftrightarrow> source_name s < source_name t"

instance
  by standard (auto simp: less_eq_source_def less_source_def order_less_le)

end

section \<open>Events, windows, incidents\<close>

record payment_event =
  event_id :: uuid
  pe_transaction_id :: uuid
  pe_source :: source
  amount_minor :: i64
  fee_minor :: i64
  pe_currency :: string
  timestamp_ms :: i64
  pe_tx_type :: string
  pe_merchant_id :: "string option"

record stream_message =
  sm_event :: payment_event
  internal_event_id :: uuid
  correlation_id :: "uuid option"
  ingested_at_ms :: i64

type_synonym event_map = "source \<rightharpoonup> payment_event"

record partial_transaction =
  pt_transaction_id :: uuid
  events :: event_map
  first_seen_at_ms :: i64
  deadline_ms :: i64
  processing_time_micros :: i64

text \<open>What the iteration order of a hash map always satisfies: it lists every key once.\<close>

definition iter_order :: "(event_map \<Rightarrow> source list) \<Rightarrow> bool" where
  "iter_order ord \<longleftrightarrow> (\<forall>m. distinct (ord m) \<and> set (ord m) = dom m)"

definition first_value :: "(event_map \<Rightarrow> source list) \<Rightarrow> event_map \<Rightarrow> payment_event option" where
  "first_value ord m = (case ord m of [] \<Rightarrow> None | s # _ \<Rightarrow> m s)"

definition events_len :: "event_map \<Rightarrow> nat" where
  "events_len m = length (filter (\<lambda>s. m s \<noteq> None) source_all)"

definition new_partial :: "uuid \<Rightarrow> i64 \<Rightarrow> u64 \<Rightarrow> partial_transaction" where
  "new_partial tx first_seen timeout_ms =
     \<lparr>pt_transaction_id = tx, events = Map.empty, first_seen_at_ms = first_seen,
      deadline_ms = first_seen + timeout_ms, processing_time_micros = 0\<rparr>"

definition is_complete :: "partial_transaction \<Rightarrow> nat \<Rightarrow> bool" where
  "is_complete p expected \<longleftrightarrow> expected \<le> events_len (events p)"

definition sources_seen :: "(event_map \<Rightarrow> source list) \<Rightarrow> partial_transaction \<Rightarrow> source list" where
  "sources_seen ord p = sort_key source_name (ord (events p))"

definition missing_sources :: "partial_transaction \<Rightarrow> source list" where
  "missing_sources p = filter (\<lambda>s. events p s = None) source_all"

datatype incident_kind =
  AmountMismatch | FeeMismatch | CurrencyMismatch | MissingSource | Duplicate | SourceOffline

fun kind_name :: "incident_kind \<Rightarrow> string" where
  "kind_name AmountMismatch = ''amount_mismatch''"
| "kind_name FeeMismatch = ''fee_mismatch''"
| "kind_name CurrencyMismatch = ''currency_mismatch''"
| "kind_name MissingSource = ''missing_source''"
| "kind_name Duplicate = ''duplicate''"
| "kind_name SourceOffline = ''source_offline''"

record incident =
  in_transaction_id :: uuid
  incident_type :: incident_kind
  severity :: i16
  description :: string

datatype reconciliation_result = Matched | Mismatched "incident list"

record reconciliation_detail =
  rd_source :: source
  amount_expected :: "i64 option"
  amount_actual :: "i64 option"
  fee_expected :: "i64 option"
  fee_actual :: "i64 option"
  is_matched :: bool
  mismatch_reason :: "string option"

datatype pubsub_event =
    TransactionReceived uuid source i64
  | TransactionProgress uuid "source list" i64
  | TransactionMatched uuid i64
  | IncidentCreated i64 uuid string i16 string i64
  | IncidentUpdated i64 "string option" i16 i64
  | SourceStatusChanged source bool i64

section \<open>The invariants of a complete window\<close>

text \<open>
  The Russian message texts, as the code points of the literals. In order: "currencies
  do not agree", "amounts differ", "(difference", "the gateway's fee does not add up",
  "expected", "actually".
\<close>

definition txt_currencies :: string where
  "txt_currencies = utf8 [1042, 1072, 1083, 1102, 1090, 1099, 32, 1085, 1077, 32, 1089, 1086, 1074, 1087, 1072, 1076, 1072, 1102, 1090, 58, 32]"
definition txt_amounts :: string where
  "txt_amounts = utf8 [1057, 1091, 1084, 1084, 1072, 32, 1088, 1072, 1089, 1093, 1086, 1076, 1080, 1090, 1089, 1103, 58, 32]"
definition txt_difference :: string where
  "txt_difference = utf8 [32, 40, 1088, 1072, 1079, 1085, 1080, 1094, 1072, 32]"
definition txt_fee :: string where
  "txt_fee = utf8 [1050, 1086, 1084, 1080, 1089, 1089, 1080, 1103, 32, 1096, 1083, 1102, 1079, 1072, 32, 1085, 1077, 32, 1089, 1093, 1086, 1076, 1080, 1090, 1089, 1103, 58, 32]"
definition txt_expected :: string where
  "txt_expected = utf8 [44, 32, 1086, 1078, 1080, 1076, 1072, 1077, 1090, 1089, 1103, 32]"
definition txt_actually :: string where
  "txt_actually = utf8 [44, 32, 1092, 1072, 1082, 1090, 1080, 1095, 1077, 1089, 1082, 1080, 32]"

definition currency_description :: "payment_event \<Rightarrow> payment_event \<Rightarrow> payment_event \<Rightarrow> string" where
  "currency_description m g b =
     txt_currencies @ ''merchant='' @ pe_currency m @ '', gateway='' @ pe_currency g
     @ '', bank='' @ pe_currency b"

definition amount_description :: "payment_event \<Rightarrow> payment_event \<Rightarrow> string" where
  "amount_description m g =
     txt_amounts @ ''merchant='' @ show_i64 (amount_minor m)
     @ '', gateway='' @ show_i64 (amount_minor g)
     @ txt_difference @ show_i64 (amount_minor g - amount_minor m) @ '')''"

definition fee_description :: "payment_event \<Rightarrow> i64 \<Rightarrow> payment_event \<Rightarrow> string" where
  "fee_description g expected b =
     txt_fee @ ''gateway.amount='' @ show_i64 (amount_minor g)
     @ '', gateway.fee='' @ show_i64 (fee_minor g)
     @ txt_expected @ ''bank.amount='' @ show_i64 expected
     @ txt_actually @ ''bank.amount='' @ show_i64 (amount_minor b)"

definition check_invariants :: "partial_transaction \<Rightarrow> reconciliation_result" where
  "check_invariants p =
     (case events p Merchant of
        None \<Rightarrow> Mismatched []
      | Some m \<Rightarrow>
     (case events p Gateway of
        None \<Rightarrow> Mismatched []
      | Some g \<Rightarrow>
     (case events p Bank of
        None \<Rightarrow> Mismatched []
      | Some b \<Rightarrow>
        if \<not> (pe_currency m = pe_currency g \<and> pe_currency g = pe_currency b) then
          Mismatched [\<lparr>in_transaction_id = pt_transaction_id p, incident_type = CurrencyMismatch,
                       severity = 1, description = currency_description m g b\<rparr>]
        else
          let amount_incidents =
                (if amount_minor g \<noteq> amount_minor m then
                   [\<lparr>in_transaction_id = pt_transaction_id p, incident_type = AmountMismatch,
                     severity = 1, description = amount_description m g\<rparr>]
                 else []);
              expected_bank_amount = amount_minor g - fee_minor g;
              incidents = amount_incidents @
                (if amount_minor b \<noteq> expected_bank_amount then
                   [\<lparr>in_transaction_id = pt_transaction_id p, incident_type = FeeMismatch,
                     severity = 1, description = fee_description g expected_bank_amount b\<rparr>]
                 else [])
          in if incidents = [] then Matched else Mismatched incidents)))"

section \<open>The per-source details\<close>

text \<open>\<open>a.and_then(|x| b.map(|y| f(x, y))).unwrap_or(false)\<close>\<close>

definition both :: "('a \<Rightarrow> 'b \<Rightarrow> bool) \<Rightarrow> 'a option \<Rightarrow> 'b option \<Rightarrow> bool" where
  "both f a b = (case Option.bind a (\<lambda>x. map_option (f x) b) of None \<Rightarrow> False | Some r \<Rightarrow> r)"

definition build_details :: "partial_transaction \<Rightarrow> reconciliation_detail list" where
  "build_details p =
     (let merchant = events p Merchant;
          gateway = events p Gateway;
          bank = events p Bank;
          currency_mismatch =
            both (\<lambda>m g. pe_currency m \<noteq> pe_currency g) merchant gateway
            \<or> both (\<lambda>g b. pe_currency g \<noteq> pe_currency b) gateway bank
            \<or> both (\<lambda>m b. pe_currency m \<noteq> pe_currency b) merchant bank;
          amount_mismatch = both (\<lambda>m g. amount_minor g \<noteq> amount_minor m) merchant gateway;
          fee_mismatch =
            both (\<lambda>g b. amount_minor b \<noteq> amount_minor g - fee_minor g) gateway bank
      in (case merchant of None \<Rightarrow> [] | Some m \<Rightarrow>
            [\<lparr>rd_source = Merchant,
              amount_expected = map_option amount_minor gateway,
              amount_actual = Some (amount_minor m),
              fee_expected = Some 0,
              fee_actual = Some (fee_minor m),
              is_matched =
                (case map_option (\<lambda>g. amount_minor g = amount_minor m) gateway of
                   None \<Rightarrow> False | Some r \<Rightarrow> r),
              mismatch_reason =
                (if currency_mismatch then Some ''currency mismatch''
                 else if amount_mismatch then Some ''merchant amount mismatch''
                 else None)\<rparr>])
       @ (case gateway of None \<Rightarrow> [] | Some g \<Rightarrow>
            [\<lparr>rd_source = Gateway,
              amount_expected = map_option amount_minor merchant,
              amount_actual = Some (amount_minor g),
              fee_expected = None,
              fee_actual = Some (fee_minor g),
              is_matched =
                (case map_option (\<lambda>m. amount_minor m = amount_minor g) merchant of
                   None \<Rightarrow> False | Some r \<Rightarrow> r),
              mismatch_reason =
                (if currency_mismatch then Some ''currency mismatch''
                 else if amount_mismatch \<or> fee_mismatch then Some ''gateway consistency mismatch''
                 else None)\<rparr>])
       @ (case bank of None \<Rightarrow> [] | Some b \<Rightarrow>
            let expected = map_option (\<lambda>g. amount_minor g - fee_minor g) gateway in
            [\<lparr>rd_source = Bank,
              amount_expected = expected,
              amount_actual = Some (amount_minor b),
              fee_expected = None,
              fee_actual = Some (fee_minor b),
              is_matched =
                (case map_option (\<lambda>e. e = amount_minor b) expected of
                   None \<Rightarrow> False | Some r \<Rightarrow> r),
              mismatch_reason =
                (if currency_mismatch then Some ''currency mismatch''
                 else if fee_mismatch then Some ''bank amount mismatch''
                 else None)\<rparr>]))"

section \<open>Lemmas on windows\<close>

lemma source_le_simps [simp]:
  "Bank \<le> s" "Gateway \<le> Merchant" "s \<le> Merchant"
  "\<not> Gateway \<le> Bank" "\<not> Merchant \<le> Bank" "\<not> Merchant \<le> Gateway"
  by (cases s; simp add: less_eq_source_def)+

lemma sort_key_source_name: "sort_key source_name xs = sort xs"
proof -
  have "insort_key source_name x ys = insort x ys" for x ys
    by (induction ys) (simp_all add: less_eq_source_def)
  then have "sort_key source_name xs = foldr insort xs []" for xs
    by (induction xs) (simp_all add: sort_key_def)
  then show ?thesis by (simp add: sort_key_def)
qed

lemma events_len_card: "events_len m = card (dom m)"
proof -
  have "dom m = set (filter (\<lambda>s. m s \<noteq> None) source_all)" by auto
  moreover have "distinct (filter (\<lambda>s. m s \<noteq> None) source_all)" by simp
  ultimately show ?thesis
    unfolding events_len_def by (metis distinct_card)
qed

lemma events_len_le: "events_len m \<le> 3"
  by (simp add: events_len_def source_all_def)

lemma events_len_3: "events_len m = 3 \<longleftrightarrow> (\<forall>s. m s \<noteq> None)"
  by (simp add: events_len_def source_all_def source_forall)

lemma events_len_update: "m s = None \<Longrightarrow> events_len (m(s \<mapsto> e)) = Suc (events_len m)"
  by (simp add: events_len_card domIff)

lemma iter_order_nil: "iter_order ord \<Longrightarrow> ord m = [] \<longleftrightarrow> m = Map.empty"
  unfolding iter_order_def by (metis dom_eq_empty_conv set_empty)

lemma iter_order_mem: "iter_order ord \<Longrightarrow> s \<in> set (ord m) \<longleftrightarrow> m s \<noteq> None"
  unfolding iter_order_def by auto

lemma first_value_Some:
  assumes "iter_order ord" and "m \<noteq> Map.empty"
  shows "\<exists>s e. m s = Some e \<and> first_value ord m = Some e"
proof -
  obtain s ss where s: "ord m = s # ss"
    using iter_order_nil[OF assms(1), of m] assms(2) by (cases "ord m") auto
  then have "m s \<noteq> None" using iter_order_mem[OF assms(1), of s m] by simp
  with s show ?thesis by (auto simp: first_value_def)
qed

lemma missing_none: "missing_sources p = [] \<longleftrightarrow> (\<forall>s. events p s \<noteq> None)"
  by (simp add: missing_sources_def source_all_def source_forall)

lemma missing_length: "length (missing_sources p) + events_len (events p) = 3"
  by (simp add: missing_sources_def events_len_def source_all_def)

lemma complete_events:
  assumes "missing_sources p = []"
  obtains m g b where "events p Merchant = Some m" "events p Gateway = Some g" "events p Bank = Some b"
  using assms unfolding missing_none by blast

text \<open>The incidents a reconciliation result carries.\<close>

fun reported :: "reconciliation_result \<Rightarrow> incident list" where
  "reported Matched = []"
| "reported (Mismatched is) = is"

lemma matched_integers:
  assumes "events p Merchant = Some m" "events p Gateway = Some g" "events p Bank = Some b"
    and "- (2 ^ 63) \<le> sint (amount_minor g) - sint (fee_minor g)"
    and "sint (amount_minor g) - sint (fee_minor g) < 2 ^ 63"
  shows "check_invariants p = Matched \<longleftrightarrow>
     pe_currency m = pe_currency g \<and> pe_currency g = pe_currency b
     \<and> sint (amount_minor m) = sint (amount_minor g)
     \<and> sint (amount_minor g) = sint (amount_minor b) + sint (fee_minor g)"
proof -
  have "amount_minor b = amount_minor g - fee_minor g \<longleftrightarrow>
      sint (amount_minor b) = sint (amount_minor g) - sint (fee_minor g)"
    using sint_diff_exact[OF assms(4,5)] by (simp add: i64_eq_iff_sint)
  with assms(1-3) show ?thesis
    by (auto simp: check_invariants_def Let_def i64_eq_iff_sint[of "amount_minor g" "amount_minor m"])
qed

section \<open>Properties\<close>

text \<open>C4. A window is reported as matched exactly when all three events are present, the
  three currencies agree, the gateway's amount is the merchant's, and the bank's amount is the
  gateway's amount less the gateway's fee (in \<open>i64\<close> arithmetic).\<close>

theorem check_invariants_matched:
  "check_invariants p = Matched \<longleftrightarrow>
     (\<exists>m g b. events p Merchant = Some m \<and> events p Gateway = Some g \<and> events p Bank = Some b
        \<and> pe_currency m = pe_currency g \<and> pe_currency g = pe_currency b
        \<and> amount_minor g = amount_minor m
        \<and> amount_minor b = amount_minor g - fee_minor g)"
  by (auto simp: check_invariants_def Let_def split: option.splits)

text \<open>On amounts whose difference fits an \<open>i64\<close>, a matched window is one whose amounts
  add up as integers: nothing is gained or lost between merchant, gateway and bank.\<close>

theorem check_invariants_integers:
  assumes "events p Merchant = Some m" "events p Gateway = Some g" "events p Bank = Some b"
    and "- (2 ^ 63) \<le> sint (amount_minor g) - sint (fee_minor g)"
    and "sint (amount_minor g) - sint (fee_minor g) < 2 ^ 63"
  shows "check_invariants p = Matched \<longleftrightarrow>
     pe_currency m = pe_currency g \<and> pe_currency g = pe_currency b
     \<and> sint (amount_minor m) = sint (amount_minor g)
     \<and> sint (amount_minor g) = sint (amount_minor b) + sint (fee_minor g)"
  by (rule matched_integers[OF assms])

definition sample_event :: "source \<Rightarrow> i64 \<Rightarrow> i64 \<Rightarrow> payment_event" where
  "sample_event s amount fee =
     \<lparr>event_id = 1, pe_transaction_id = 7, pe_source = s, amount_minor = amount, fee_minor = fee,
      pe_currency = ''UZS'', timestamp_ms = 1735689600000, pe_tx_type = ''card'',
      pe_merchant_id = None\<rparr>"

definition sample_window :: "i64 \<Rightarrow> i64 \<Rightarrow> i64 \<Rightarrow> i64 \<Rightarrow> partial_transaction" where
  "sample_window m g fee b =
     (new_partial 7 0 2000)\<lparr>events :=
        [Merchant \<mapsto> sample_event Merchant m 0, Gateway \<mapsto> sample_event Gateway g fee,
         Bank \<mapsto> sample_event Bank b 0]\<rparr>"

lemma sample_window_events [simp]:
  "events (sample_window m g fee b) Merchant = Some (sample_event Merchant m 0)"
  "events (sample_window m g fee b) Gateway = Some (sample_event Gateway g fee)"
  "events (sample_window m g fee b) Bank = Some (sample_event Bank b 0)"
  by (simp_all add: sample_window_def)

lemma sample_matched: "check_invariants (sample_window 5000000 5000000 25000 4975000) = Matched"
  by (simp add: check_invariants_matched sample_event_def)

theorem check_invariants_integers_witness:
  "check_invariants (sample_window 5000000 5000000 25000 4975000) = Matched"
proof -
  have "- (2 ^ 63) \<le> sint (amount_minor (sample_event Gateway 5000000 25000))
        - sint (fee_minor (sample_event Gateway 5000000 25000))"
    and "sint (amount_minor (sample_event Gateway 5000000 25000))
        - sint (fee_minor (sample_event Gateway 5000000 25000)) < 2 ^ 63"
    by (simp_all add: sample_event_def)
  from check_invariants_integers[OF sample_window_events this]
  show ?thesis by (simp add: sample_event_def)
qed

text \<open>C34. The comparison is on wrapped \<open>i64\<close> values: a complete window is accepted whose
  amounts do not add up, when the gateway's amount less its fee leaves the \<open>i64\<close> range.\<close>

theorem check_invariants_wraps:
  "\<exists>p m g b. events p Merchant = Some m \<and> events p Gateway = Some g \<and> events p Bank = Some b
     \<and> check_invariants p = Matched
     \<and> sint (amount_minor g) \<noteq> sint (amount_minor b) + sint (fee_minor g)"
proof -
  let ?lo = "- (2 ^ 63) :: i64" and ?hi = "2 ^ 63 - 1 :: i64"
  have "check_invariants (sample_window ?lo ?lo 1 ?hi) = Matched"
    by (simp add: check_invariants_matched sample_event_def)
  moreover have "sint ?lo \<noteq> sint ?hi + sint (1 :: i64)"
    by simp
  ultimately show ?thesis
    by (intro exI[of _ "sample_window ?lo ?lo 1 ?hi"]) (auto simp: sample_event_def)
qed

text \<open>C31. What a complete window reports: a currency disagreement hides everything else and is
  reported alone; otherwise an amount incident when gateway and merchant differ, then a fee
  incident when the bank's amount is not the gateway's net amount. Every incident has severity 1
  and carries the window's transaction id.\<close>

theorem check_invariants_reports:
  assumes "events p Merchant = Some m" "events p Gateway = Some g" "events p Bank = Some b"
  shows "map incident_type (reported (check_invariants p)) =
      (if pe_currency m \<noteq> pe_currency g \<or> pe_currency g \<noteq> pe_currency b then [CurrencyMismatch]
       else (if amount_minor g \<noteq> amount_minor m then [AmountMismatch] else [])
          @ (if amount_minor b \<noteq> amount_minor g - fee_minor g then [FeeMismatch] else []))
    \<and> list_all (\<lambda>i. severity i = 1 \<and> in_transaction_id i = pt_transaction_id p)
        (reported (check_invariants p))"
  using assms by (simp add: check_invariants_def Let_def)

theorem check_invariants_reports_witness:
  "map incident_type (reported (check_invariants (sample_window 5000000 5100000 25000 4900000)))
     = [AmountMismatch, FeeMismatch]"
  using check_invariants_reports[OF sample_window_events, of 5000000 5100000 25000 4900000]
  by (simp add: sample_event_def)

text \<open>C35. A mismatch without any incident is reported exactly for the windows that lack a
  source: finalising an incomplete window marks it as a mismatch nobody is told about.\<close>

theorem check_invariants_silent_mismatch:
  "check_invariants p = Mismatched [] \<longleftrightarrow> missing_sources p \<noteq> []"
  by (cases "events p Merchant"; cases "events p Gateway"; cases "events p Bank")
    (simp_all add: check_invariants_def missing_none source_forall Let_def)

text \<open>C33. The details list the present sources once each, in the order merchant, gateway, bank,
  and repeat the amounts and fees the sources sent.\<close>

theorem build_details_sources:
  "map rd_source (build_details p) = filter (\<lambda>s. events p s \<noteq> None) source_all
   \<and> list_all (\<lambda>d. \<exists>e. events p (rd_source d) = Some e
        \<and> amount_actual d = Some (amount_minor e) \<and> fee_actual d = Some (fee_minor e))
      (build_details p)"
  by (cases "events p Merchant"; cases "events p Gateway"; cases "events p Bank")
    (simp_all add: build_details_def source_all_def Let_def)

text \<open>C32. On a complete window the two routines agree: the window is matched exactly when no
  detail carries a mismatch reason, and exactly when every detail is flagged as matched and the
  currencies agree.\<close>

theorem build_details_agree:
  assumes "missing_sources p = []"
  shows "(check_invariants p = Matched \<longleftrightarrow>
            list_all (\<lambda>d. mismatch_reason d = None) (build_details p))
       \<and> (check_invariants p = Matched \<longleftrightarrow>
            list_all is_matched (build_details p)
            \<and> map incident_type (reported (check_invariants p)) \<noteq> [CurrencyMismatch])"
proof -
  from assms obtain m g b where
    e: "events p Merchant = Some m" "events p Gateway = Some g" "events p Bank = Some b"
    by (rule complete_events)
  show ?thesis
  proof (cases "pe_currency m = pe_currency g \<and> pe_currency g = pe_currency b")
    case True
    with e show ?thesis
      by (auto simp: check_invariants_def build_details_def both_def Let_def)
  next
    case False
    with e show ?thesis
      by (auto simp: check_invariants_def build_details_def both_def Let_def)
  qed
qed

theorem build_details_agree_witness:
  "list_all is_matched (build_details (sample_window 5000000 5000000 25000 4975000))"
proof -
  have "missing_sources (sample_window 5000000 5000000 25000 4975000) = []"
    by (simp add: missing_none source_forall)
  from build_details_agree[OF this] sample_matched show ?thesis by simp
qed

text \<open>The \<open>is_matched\<close> flags do not look at the currency: there is a complete window that
  is a currency mismatch although every one of its details is stored as matched.\<close>

theorem details_matched_despite_currency:
  "\<exists>p. missing_sources p = [] \<and> list_all is_matched (build_details p)
     \<and> map incident_type (reported (check_invariants p)) = [CurrencyMismatch]"
proof -
  let ?w = "sample_window 5000000 5000000 25000 4975000"
  let ?p = "?w\<lparr>events := (events ?w)(Gateway \<mapsto>
               (sample_event Gateway 5000000 25000)\<lparr>pe_currency := ''USD''\<rparr>)\<rparr>"
  have "missing_sources ?p = []" by (simp add: missing_none source_forall)
  moreover have "list_all is_matched (build_details ?p)"
    by (simp add: build_details_def both_def Let_def sample_event_def)
  moreover have "map incident_type (reported (check_invariants ?p)) = [CurrencyMismatch]"
    by (simp add: check_invariants_def sample_event_def)
  ultimately show ?thesis by (intro exI[of _ ?p] conjI)
qed

text \<open>The list of sources published with a transaction's progress does not depend on the
  hash map's iteration order: it is the present sources sorted by name, and together with the
  missing sources it accounts for every source once.\<close>

theorem sources_seen_canonical:
  assumes "iter_order ord"
  shows "sources_seen ord p = filter (\<lambda>s. events p s \<noteq> None) [Bank, Gateway, Merchant]
    \<and> set (sources_seen ord p) \<union> set (missing_sources p) = UNIV
    \<and> set (sources_seen ord p) \<inter> set (missing_sources p) = {}"
proof -
  let ?xs = "filter (\<lambda>s. events p s \<noteq> None) [Bank, Gateway, Merchant]"
  have mem: "s \<in> set ?xs \<longleftrightarrow> events p s \<noteq> None" for s
    by (cases s) auto
  then have "set ?xs = dom (events p)" by blast
  moreover have "sorted ?xs" "distinct ?xs" by auto
  moreover have "set (ord (events p)) = dom (events p)" "distinct (ord (events p))"
    using assms by (auto simp: iter_order_def)
  ultimately have "sort (ord (events p)) = ?xs"
    by (intro sorted_distinct_set_unique) auto
  then have "sources_seen ord p = ?xs"
    by (simp add: sources_seen_def sort_key_source_name)
  moreover have "s \<in> set (missing_sources p) \<longleftrightarrow> s \<notin> set ?xs" for s
    unfolding mem by (simp add: missing_sources_def)
  then have "set (missing_sources p) = - set ?xs"
    by (intro set_eqI) (simp only: Compl_iff)
  ultimately show ?thesis
    by (simp only: Compl_partition Compl_disjoint simp_thms)
qed

definition sample_order :: "event_map \<Rightarrow> source list" where
  "sample_order m = filter (\<lambda>s. m s \<noteq> None) source_all"

lemma sample_order_iter: "iter_order sample_order"
  by (auto simp: iter_order_def sample_order_def)

theorem sources_seen_canonical_witness:
  "sources_seen sample_order (sample_window 1 1 0 1) = [Bank, Gateway, Merchant]"
  using sources_seen_canonical[OF sample_order_iter, of "sample_window 1 1 0 1"] by simp

end
