(* ===== verification/Services.thy ===== *)
theory Services imports Async Model
begin

text \<open>
  The boundary of the program: what the matcher calls but does not define. Redis (through the
  \<open>redis\<close> crate), Postgres (through \<open>sqlx\<close>), \<open>serde_json\<close>, the \<open>uuid\<close> crate,
  the clocks and the iteration order of hash maps are the fields of an environment record, so
  every definition of the development is parametric in them. A service has an opaque state and
  each call returns a \<open>Result\<close> with the next state. The theory also holds the error types
  of \<open>src/matcher/src/error.rs\<close> and the state shared by the tasks.
\<close>

section \<open>Errors\<close>

text \<open>An error of a library is its display text, which is all the code reads of it.\<close>

type_synonym redis_error = string
type_synonym sqlx_error = string
type_synonym serde_error = string
type_synonym uuid_error = string

datatype reconciler_error =
    Redis redis_error
  | Postgres sqlx_error
  | Serde serde_error
  | Uuid uuid_error
  | InvalidPayload string
  | MissingField string

fun display_error :: "reconciler_error \<Rightarrow> string" where
  "display_error (Redis e) = ''redis error: '' @ e"
| "display_error (Postgres e) = ''postgres error: '' @ e"
| "display_error (Serde e) = ''serialization error: '' @ e"
| "display_error (Uuid e) = ''uuid parse error: '' @ e"
| "display_error (InvalidPayload s) = ''invalid stream payload: '' @ s"
| "display_error (MissingField s) = ''missing required field: '' @ s"

text \<open>\<open>anyhow::Error\<close>: any error, with the context strings put around it.\<close>

datatype anyhow =
    Reconciler reconciler_error
  | Redis_crate redis_error
  | Serde_json serde_error
  | Other string
  | Context string anyhow

section \<open>The services\<close>

type_synonym ('s, 'x) call = "'s \<Rightarrow> (string + 'x) \<times> 's"

text \<open>A reply of \<open>XREADGROUP\<close>: per stream, the entries with their fields; a field is binary
  data or some other kind of value.\<close>

datatype redis_value = Data string | OtherValue

record stream_entry =
  entry_id :: string
  entry_map :: "string \<rightharpoonup> redis_value"

type_synonym stream_reply = "(string \<times> stream_entry list) list"

record 'r redis_api =
  set_nx_px :: "string \<Rightarrow> string \<Rightarrow> u64 \<Rightarrow> ('r, string option) call"
  set_px :: "string \<Rightarrow> string \<Rightarrow> u64 \<Rightarrow> ('r, unit) call"
  setex :: "string \<Rightarrow> i64 \<Rightarrow> string \<Rightarrow> ('r, unit) call"
  get_str :: "string \<Rightarrow> ('r, string option) call"
  get_i64 :: "string \<Rightarrow> ('r, i64) call"
  del :: "string \<Rightarrow> ('r, unit) call"
  expire :: "string \<Rightarrow> i64 \<Rightarrow> ('r, unit) call"
  incr :: "string \<Rightarrow> i64 \<Rightarrow> ('r, unit) call"
  scan :: "u64 \<Rightarrow> string \<Rightarrow> nat \<Rightarrow> ('r, u64 \<times> string list) call"
  zadd :: "string \<Rightarrow> string \<Rightarrow> i64 \<Rightarrow> ('r, unit) call"
  zrangebyscore :: "string \<Rightarrow> i64 \<Rightarrow> ('r, string list) call"
  zrem :: "string \<Rightarrow> string \<Rightarrow> ('r, i64) call"
  zadd_i64 :: "string \<Rightarrow> i64 \<Rightarrow> i64 \<Rightarrow> ('r, unit) call"
  zrangebyscore_i64 :: "string \<Rightarrow> i64 \<Rightarrow> ('r, i64 list) call"
  zrem_i64 :: "string \<Rightarrow> i64 \<Rightarrow> ('r, i64) call"
  sadd :: "string \<Rightarrow> string \<Rightarrow> ('r, i64) call"
  publish_cmd :: "string \<Rightarrow> string \<Rightarrow> ('r, i64) call"
  lpush :: "string \<Rightarrow> i64 \<Rightarrow> ('r, unit) call"
  ltrim :: "string \<Rightarrow> i64 \<Rightarrow> i64 \<Rightarrow> ('r, unit) call"
  lrange :: "string \<Rightarrow> i64 \<Rightarrow> i64 \<Rightarrow> ('r, string list) call"
  xgroup_create :: "string \<Rightarrow> string \<Rightarrow> string \<Rightarrow> ('r, string) call"
  xreadgroup :: "string \<Rightarrow> string \<Rightarrow> string \<Rightarrow> nat \<Rightarrow> nat \<Rightarrow> ('r, stream_reply) call"
  xack :: "string \<Rightarrow> string \<Rightarrow> string list \<Rightarrow> ('r, i64) call"
  ping :: "('r, string) call"

text \<open>The statements the store sends to Postgres, with the parameters it binds.\<close>

datatype pg_stmt =
    Upsert_transaction uuid string string string "string option" f64
  | Upsert_detail uuid string "i64 option" "i64 option" "i64 option" "i64 option" bool "string option"
  | Insert_incident uuid string i16 string
  | Update_severity i64 i16
  | Select_one

text \<open>\<open>execute\<close> returns the number of affected rows, \<open>fetch_one\<close> the returned integer.\<close>

record 'p pg_api =
  execute :: "pg_stmt \<Rightarrow> ('p, u64) call"
  fetch_one :: "pg_stmt \<Rightarrow> ('p, i64) call"

record ('r, 'p) env =
  rds :: "'r redis_api"
  pgs :: "'p pg_api"
  uuid_str :: "uuid \<Rightarrow> string"
  uuid_parse :: "string \<Rightarrow> uuid option"
  window_to_json :: "partial_transaction \<Rightarrow> serde_error + string"
  window_from_json :: "string \<Rightarrow> serde_error + partial_transaction"
  event_to_json :: "pubsub_event \<Rightarrow> serde_error + string"
  message_from_json :: "string \<Rightarrow> serde_error + stream_message"
  map_order :: "event_map \<Rightarrow> source list"
  utc_millis :: "nat \<Rightarrow> i64"
  utc_rfc3339 :: "nat \<Rightarrow> string"
  elapsed_micros :: "nat \<Rightarrow> nat"
  f64_of_i64 :: "i64 \<Rightarrow> f64"
  f64_div :: "f64 \<Rightarrow> f64 \<Rightarrow> f64"
  f64_mul :: "f64 \<Rightarrow> f64 \<Rightarrow> f64"
  i32_of_f64 :: "f64 \<Rightarrow> i32"

section \<open>The shared state\<close>

text \<open>
  What the tasks share: the two services, the engine's concurrent map of windows, and the number
  of clock readings so far (the \<open>n\<close>-th reading of a clock is a field of the environment at \<open>n\<close>).
\<close>

record ('r, 'p) world =
  redis_st :: 'r
  pg_st :: 'p
  windows :: "uuid \<rightharpoonup> partial_transaction"
  reads :: nat

type_synonym ('r, 'p, 'e, 'a) io = "(('r, 'p) world, 'e, 'a) proc"

definition redis_call :: "('r, 'x) call \<Rightarrow> ('r, 'p, redis_error, 'x) io" where
  "redis_call f = atomic (\<lambda>s. case f (redis_st s) of (x, r) \<Rightarrow> (x, s\<lparr>redis_st := r\<rparr>))"

definition pg_call :: "('p, 'x) call \<Rightarrow> ('r, 'p, sqlx_error, 'x) io" where
  "pg_call f = atomic (\<lambda>s. case f (pg_st s) of (x, r) \<Rightarrow> (x, s\<lparr>pg_st := r\<rparr>))"

text \<open>A call whose error \<open>?\<close> converts to a \<open>ReconcilerError\<close>.\<close>

abbreviation rcall :: "('r, 'x) call \<Rightarrow> ('r, 'p, reconciler_error, 'x) io" where
  "rcall f \<equiv> map_err Redis (redis_call f)"

abbreviation pcall :: "('p, 'x) call \<Rightarrow> ('r, 'p, reconciler_error, 'x) io" where
  "pcall f \<equiv> map_err Postgres (pg_call f)"

definition read_clock :: "(nat \<Rightarrow> 'x) \<Rightarrow> ('r, 'p, 'e, 'x) io" where
  "read_clock f = atomic (\<lambda>s. (Inr (f (reads s)), s\<lparr>reads := Suc (reads s)\<rparr>))"

text \<open>\<open>Utc::now().timestamp_millis()\<close> and \<open>start.elapsed().as_micros() as i64\<close>.\<close>

definition utc_now :: "('r, 'p) env \<Rightarrow> ('r, 'p, 'e, i64) io" where
  "utc_now E = read_clock (utc_millis E)"

definition elapsed :: "('r, 'p) env \<Rightarrow> ('r, 'p, 'e, i64) io" where
  "elapsed E = read_clock (\<lambda>n. of_nat (elapsed_micros E n))"

definition lift_result :: "'e + 'a \<Rightarrow> ('s, 'e, 'a) proc" where
  "lift_result r = Ready r"

section \<open>Evaluation of the boundary\<close>

lemma run_redis_call [run_simps]:
  "run (redis_call f) s = (case f (redis_st s) of (x, r) \<Rightarrow> (x, s\<lparr>redis_st := r\<rparr>))"
  by (simp add: redis_call_def run_atomic)

lemma run_pg_call [run_simps]:
  "run (pg_call f) s = (case f (pg_st s) of (x, r) \<Rightarrow> (x, s\<lparr>pg_st := r\<rparr>))"
  by (simp add: pg_call_def run_atomic)

lemma run_read_clock [run_simps]:
  "run (read_clock f) s = (Inr (f (reads s)), s\<lparr>reads := Suc (reads s)\<rparr>)"
  by (simp add: read_clock_def run_atomic)

lemma run_utc_now [run_simps]:
  "run (utc_now E) s = (Inr (utc_millis E (reads s)), s\<lparr>reads := Suc (reads s)\<rparr>)"
  by (simp add: utc_now_def run_read_clock)

lemma run_elapsed [run_simps]:
  "run (elapsed E) s = (Inr (of_nat (elapsed_micros E (reads s))), s\<lparr>reads := Suc (reads s)\<rparr>)"
  by (simp add: elapsed_def run_read_clock)

lemma run_lift_result [run_simps]: "run (lift_result r) s = (r, s)"
  by (simp add: lift_result_def)

text \<open>Steps that only touch one part of the state keep what does not depend on it.\<close>

lemma keeps_redis_call:
  "(\<And>s x r. I s \<Longrightarrow> f (redis_st s) = (x, r) \<Longrightarrow> I (s\<lparr>redis_st := r\<rparr>)) \<Longrightarrow>
     keeps I (\<lambda>_. True) (redis_call f)"
  unfolding redis_call_def by (rule keeps_atomic) (auto split: prod.splits)

lemma keeps_pg_call:
  "(\<And>s x r. I s \<Longrightarrow> f (pg_st s) = (x, r) \<Longrightarrow> I (s\<lparr>pg_st := r\<rparr>)) \<Longrightarrow>
     keeps I (\<lambda>_. True) (pg_call f)"
  unfolding pg_call_def by (rule keeps_atomic) (auto split: prod.splits)

lemma keeps_read_clock:
  "(\<And>s n. I s \<Longrightarrow> I (s\<lparr>reads := n\<rparr>)) \<Longrightarrow> keeps I (\<lambda>_. True) (read_clock f)"
  unfolding read_clock_def by (rule keeps_atomic) auto

lemma keeps_lift_result: "keeps I (\<lambda>_. True) (lift_result r)"
  by (simp add: lift_result_def split: sum.splits)

section \<open>What it means that a service keeps to its documentation\<close>

text \<open>
  \<open>view\<close> reads the observable content of a service's state, \<open>later\<close> relates a content to
  what it can have become by itself before the service gets to the next call (time passes), and
  \<open>R V x V'\<close> is the documented effect of a call: from content \<open>V\<close> it answers \<open>x\<close> and
  leaves \<open>V'\<close>. A call that fails has either not been executed or its answer was lost.
\<close>

definition complies ::
  "('s \<Rightarrow> 'v) \<Rightarrow> ('v \<Rightarrow> 'v \<Rightarrow> bool) \<Rightarrow> ('s, 'x) call \<Rightarrow> ('v \<Rightarrow> 'x \<Rightarrow> 'v \<Rightarrow> bool) \<Rightarrow> bool" where
  "complies view later f R \<longleftrightarrow>
     (\<forall>r. \<exists>V. later (view r) V \<and>
        (case f r of
           (Inr x, r') \<Rightarrow> R V x (view r')
         | (Inl e, r') \<Rightarrow> view r' = V \<or> (\<exists>x. R V x (view r'))))"

lemma complies_at:
  assumes "complies view later f R"
  obtains V where "later (view r) V"
    and "\<And>x r'. f r = (Inr x, r') \<Longrightarrow> R V x (view r')"
    and "\<And>e r'. f r = (Inl e, r') \<Longrightarrow> view r' = V \<or> (\<exists>x. R V x (view r'))"
proof -
  from assms[unfolded complies_def, THEN spec, of r] obtain V where V: "later (view r) V"
    and c: "case f r of (Inr x, r') \<Rightarrow> R V x (view r')
              | (Inl e, r') \<Rightarrow> view r' = V \<or> (\<exists>x. R V x (view r'))"
    by (elim exE conjE)
  show ?thesis
  proof (rule that[OF V])
    show "R V x (view r')" if "f r = (Inr x, r')" for x r'
      using c that by simp
    show "view r' = V \<or> (\<exists>x. R V x (view r'))" if "f r = (Inl e, r')" for e r'
      using c that by simp
  qed
qed

lemma complies_ok:
  assumes "complies view later f R" and "f r = (Inr x, r')"
  obtains V where "later (view r) V" and "R V x (view r')"
  using assms(1)
proof (rule complies_at[of view later f R r])
  fix V
  assume "later (view r) V" and "\<And>x r'. f r = (Inr x, r') \<Longrightarrow> R V x (view r')"
  then show thesis using assms(2) by (intro that)
qed

lemma complies_any:
  assumes "complies view later f R" and "f r = (x, r')"
  obtains (same) V where "later (view r) V" and "view r' = V"
        | (effect) V y where "later (view r) V" and "R V y (view r')"
  using assms(1)
proof (rule complies_at[of view later f R r])
  fix V
  assume V: "later (view r) V" and ok: "\<And>x r'. f r = (Inr x, r') \<Longrightarrow> R V x (view r')"
    and er: "\<And>e r'. f r = (Inl e, r') \<Longrightarrow> view r' = V \<or> (\<exists>x. R V x (view r'))"
  show thesis
  proof (cases x)
    case (Inl e)
    with assms(2) er have "view r' = V \<or> (\<exists>x. R V x (view r'))" by simp
    then show thesis using V same effect by (elim disjE exE)
  next
    case (Inr y)
    with assms(2) ok have "R V y (view r')" by simp
    with V show thesis by (rule effect)
  qed
qed

end
