(* ===== verification/Redis_Laws.thy ===== *)
theory Redis_Laws imports Services
begin

text \<open>
  What the matcher relies on about the Redis server, as documented: the observable content of
  a server (\<open>rview\<close>: its clock, the live keys with their values and expiry times, the messages
  published so far), the effect of each command the store issues on that content, and the
  locale \<open>redis_server\<close> that collects them. A key with an expiry time is gone once the
  server's clock reaches it. The laws assume that no other client writes the matcher's keys.
  \<open>dbl\<close> is the rounding of a sorted set's scores to doubles: monotone, nothing else is used.
\<close>

section \<open>The observable content\<close>

datatype rval =
    RStr string
  | RSet "string set"
  | RZset "string \<rightharpoonup> int"
  | RList "string list"

record rview =
  clock :: int
  cells :: "string \<rightharpoonup> rval \<times> int option"
  sent :: "(string \<times> string) list"

definition unexpired :: "int \<Rightarrow> (rval \<times> int option) option \<Rightarrow> (rval \<times> int option) option" where
  "unexpired c e = (case e of Some (v, Some t) \<Rightarrow> if c < t then e else None | _ \<Rightarrow> e)"

definition wait_until :: "int \<Rightarrow> rview \<Rightarrow> rview" where
  "wait_until c V = V\<lparr>clock := c, cells := (\<lambda>k. unexpired c (cells V k))\<rparr>"

definition rlater :: "rview \<Rightarrow> rview \<Rightarrow> bool" where
  "rlater V V' \<longleftrightarrow> (\<exists>c. clock V \<le> c \<and> V' = wait_until c V)"

definition put_cell :: "string \<Rightarrow> (rval \<times> int option) option \<Rightarrow> rview \<Rightarrow> rview" where
  "put_cell k e V = V\<lparr>cells := (cells V)(k := e)\<rparr>"

lemma put_cell_simps [simp]:
  "clock (put_cell k e V) = clock V"
  "cells (put_cell k e V) = (cells V)(k := e)"
  "sent (put_cell k e V) = sent V"
  by (simp_all add: put_cell_def)

lemma wait_until_simps [simp]:
  "clock (wait_until c V) = c"
  "cells (wait_until c V) k = unexpired c (cells V k)"
  "sent (wait_until c V) = sent V"
  by (simp_all add: wait_until_def)

lemma unexpired_None [simp]: "unexpired c None = None"
  by (simp add: unexpired_def)

lemma unexpired_lasting [simp]: "unexpired c (Some (v, None)) = Some (v, None)"
  by (simp add: unexpired_def)

lemma unexpired_Some: "unexpired c e = Some x \<Longrightarrow> e = Some x"
  by (auto simp: unexpired_def split: option.splits prod.splits if_splits)

section \<open>The effect of the commands\<close>

definition sp_set_nx_px :: "string \<Rightarrow> string \<Rightarrow> u64 \<Rightarrow> rview \<Rightarrow> string option \<Rightarrow> rview \<Rightarrow> bool" where
  "sp_set_nx_px k v ttl V x V' \<longleftrightarrow> 0 < ttl \<and>
     (if cells V k = None
      then x = Some ''OK'' \<and> V' = put_cell k (Some (RStr v, Some (clock V + uint ttl))) V
      else x = None \<and> V' = V)"

definition sp_set_px :: "string \<Rightarrow> string \<Rightarrow> u64 \<Rightarrow> rview \<Rightarrow> unit \<Rightarrow> rview \<Rightarrow> bool" where
  "sp_set_px k v ttl V x V' \<longleftrightarrow> 0 < ttl \<and>
     V' = put_cell k (Some (RStr v, Some (clock V + uint ttl))) V"

definition sp_setex :: "string \<Rightarrow> i64 \<Rightarrow> string \<Rightarrow> rview \<Rightarrow> unit \<Rightarrow> rview \<Rightarrow> bool" where
  "sp_setex k secs v V x V' \<longleftrightarrow> 0 < sint secs \<and>
     V' = put_cell k (Some (RStr v, Some (clock V + 1000 * sint secs))) V"

definition sp_get :: "string \<Rightarrow> rview \<Rightarrow> string option \<Rightarrow> rview \<Rightarrow> bool" where
  "sp_get k V x V' \<longleftrightarrow> V' = V \<and>
     (case cells V k of None \<Rightarrow> x = None | Some (RStr s, _) \<Rightarrow> x = Some s | _ \<Rightarrow> False)"

definition sp_get_i64 :: "string \<Rightarrow> rview \<Rightarrow> i64 \<Rightarrow> rview \<Rightarrow> bool" where
  "sp_get_i64 k V x V' \<longleftrightarrow> V' = V \<and> (\<exists>s t. cells V k = Some (RStr s, t) \<and> parse_i64 s = Some x)"

definition sp_del :: "string \<Rightarrow> rview \<Rightarrow> unit \<Rightarrow> rview \<Rightarrow> bool" where
  "sp_del k V x V' \<longleftrightarrow> V' = put_cell k None V"

definition sp_expire :: "string \<Rightarrow> i64 \<Rightarrow> rview \<Rightarrow> unit \<Rightarrow> rview \<Rightarrow> bool" where
  "sp_expire k secs V x V' \<longleftrightarrow>
     V' = (case cells V k of None \<Rightarrow> V
           | Some (v, _) \<Rightarrow>
               put_cell k (if 0 < sint secs then Some (v, Some (clock V + 1000 * sint secs)) else None) V)"

definition sp_incr :: "string \<Rightarrow> i64 \<Rightarrow> rview \<Rightarrow> unit \<Rightarrow> rview \<Rightarrow> bool" where
  "sp_incr k d V x V' \<longleftrightarrow>
     (case cells V k of
        None \<Rightarrow> V' = put_cell k (Some (RStr (show_i64 d), None)) V
      | Some (RStr s, t) \<Rightarrow>
          (\<exists>i. parse_i64 s = Some i \<and> - (2 ^ 63) \<le> sint i + sint d \<and> sint i + sint d < 2 ^ 63
             \<and> V' = put_cell k (Some (RStr (show_i64 (i + d)), t)) V)
      | _ \<Rightarrow> False)"

text \<open>A page of a scan holds live keys that match the pattern.\<close>

definition sp_scan :: "(string \<Rightarrow> bool) \<Rightarrow> rview \<Rightarrow> u64 \<times> string list \<Rightarrow> rview \<Rightarrow> bool" where
  "sp_scan matches V x V' \<longleftrightarrow> V' = V \<and> (\<forall>k \<in> set (snd x). matches k)"

definition zset_of :: "(rval \<times> int option) option \<Rightarrow> (string \<rightharpoonup> int)" where
  "zset_of e = (case e of Some (RZset z, _) \<Rightarrow> z | _ \<Rightarrow> Map.empty)"

definition sp_zadd :: "string \<Rightarrow> string \<Rightarrow> int \<Rightarrow> rview \<Rightarrow> unit \<Rightarrow> rview \<Rightarrow> bool" where
  "sp_zadd k m score V x V' \<longleftrightarrow>
     (case cells V k of
        None \<Rightarrow> V' = put_cell k (Some (RZset [m \<mapsto> score], None)) V
      | Some (RZset z, t) \<Rightarrow> V' = put_cell k (Some (RZset (z(m \<mapsto> score)), t)) V
      | _ \<Rightarrow> False)"

definition sp_zrangebyscore :: "string \<Rightarrow> int \<Rightarrow> rview \<Rightarrow> string list \<Rightarrow> rview \<Rightarrow> bool" where
  "sp_zrangebyscore k limit V x V' \<longleftrightarrow> V' = V \<and>
     (case cells V k of
        None \<Rightarrow> x = []
      | Some (RZset z, _) \<Rightarrow>
          distinct x \<and> set x = {m. \<exists>i. z m = Some i \<and> i \<le> limit} \<and> sorted (map (\<lambda>m. the (z m)) x)
      | _ \<Rightarrow> False)"

definition sp_zrem :: "string \<Rightarrow> string \<Rightarrow> rview \<Rightarrow> i64 \<Rightarrow> rview \<Rightarrow> bool" where
  "sp_zrem k m V x V' \<longleftrightarrow>
     (case cells V k of
        None \<Rightarrow> x = 0 \<and> V' = V
      | Some (RZset z, t) \<Rightarrow>
          x = (if z m = None then 0 else 1)
          \<and> V' = put_cell k (if z(m := None) = Map.empty then None else Some (RZset (z(m := None)), t)) V
      | _ \<Rightarrow> False)"

definition sp_sadd :: "string \<Rightarrow> string \<Rightarrow> rview \<Rightarrow> i64 \<Rightarrow> rview \<Rightarrow> bool" where
  "sp_sadd k m V x V' \<longleftrightarrow>
     (case cells V k of
        None \<Rightarrow> x = 1 \<and> V' = put_cell k (Some (RSet {m}, None)) V
      | Some (RSet S, t) \<Rightarrow>
          x = (if m \<in> S then 0 else 1) \<and> V' = put_cell k (Some (RSet (insert m S), t)) V
      | _ \<Rightarrow> False)"

definition sp_publish :: "string \<Rightarrow> string \<Rightarrow> rview \<Rightarrow> i64 \<Rightarrow> rview \<Rightarrow> bool" where
  "sp_publish ch m V x V' \<longleftrightarrow> V' = V\<lparr>sent := sent V @ [(ch, m)]\<rparr>"

definition sp_lpush :: "string \<Rightarrow> i64 \<Rightarrow> rview \<Rightarrow> unit \<Rightarrow> rview \<Rightarrow> bool" where
  "sp_lpush k i V x V' \<longleftrightarrow>
     (case cells V k of
        None \<Rightarrow> V' = put_cell k (Some (RList [show_i64 i], None)) V
      | Some (RList l, t) \<Rightarrow> V' = put_cell k (Some (RList (show_i64 i # l), t)) V
      | _ \<Rightarrow> False)"

text \<open>
  \<open>LTRIM k 0 stop\<close>: the code trims from the head only, to \<open>stop + 1\<close> elements; a negative
  \<open>stop\<close> counts from the end, and a list with nothing left is gone.
\<close>

definition ltrim_length :: "i64 \<Rightarrow> 'x list \<Rightarrow> nat" where
  "ltrim_length stop l =
     nat (if 0 \<le> sint stop then sint stop + 1 else int (length l) + sint stop + 1)"

definition sp_ltrim :: "string \<Rightarrow> i64 \<Rightarrow> rview \<Rightarrow> unit \<Rightarrow> rview \<Rightarrow> bool" where
  "sp_ltrim k stop V x V' \<longleftrightarrow>
     (case cells V k of
        None \<Rightarrow> V' = V
      | Some (RList l, t) \<Rightarrow>
          V' = put_cell k (case take (ltrim_length stop l) l of
                             [] \<Rightarrow> None | l' \<Rightarrow> Some (RList l', t)) V
      | _ \<Rightarrow> False)"

text \<open>Reading and acknowledging entries of the stream, which the content leaves out, changes
  nothing of it.\<close>

definition sp_stream :: "rview \<Rightarrow> 'x \<Rightarrow> rview \<Rightarrow> bool" where
  "sp_stream V x V' \<longleftrightarrow> V' = V"

section \<open>The server\<close>

locale redis_server =
  fixes E :: "('r, 'p) env" and view :: "'r \<Rightarrow> rview" and dbl :: "int \<Rightarrow> int"
  assumes dbl_mono: "i \<le> j \<Longrightarrow> dbl i \<le> dbl j"
    and uuid_round_trip: "uuid_parse E (uuid_str E u) = Some u"
    and set_nx_px_law: "complies view rlater (set_nx_px (rds E) k v ttl) (sp_set_nx_px k v ttl)"
    and set_px_law: "complies view rlater (set_px (rds E) k v ttl) (sp_set_px k v ttl)"
    and setex_law: "complies view rlater (setex (rds E) k secs v) (sp_setex k secs v)"
    and get_law: "complies view rlater (get_str (rds E) k) (sp_get k)"
    and get_i64_law: "complies view rlater (get_i64 (rds E) k) (sp_get_i64 k)"
    and del_law: "complies view rlater (del (rds E) k) (sp_del k)"
    and expire_law: "complies view rlater (expire (rds E) k secs) (sp_expire k secs)"
    and incr_law: "complies view rlater (incr (rds E) k d) (sp_incr k d)"
    and scan_law: "complies view rlater (scan (rds E) cur ''window:*'' n)
                     (sp_scan (starts_with ''window:''))"
    and zadd_law: "complies view rlater (zadd (rds E) k m score) (sp_zadd k m (dbl (sint score)))"
    and zrangebyscore_law:
      "complies view rlater (zrangebyscore (rds E) k score) (sp_zrangebyscore k (dbl (sint score)))"
    and zrem_law: "complies view rlater (zrem (rds E) k m) (sp_zrem k m)"
    and zadd_i64_law:
      "complies view rlater (zadd_i64 (rds E) k ident score) (sp_zadd k (show_i64 ident) (dbl (sint score)))"
    and zrangebyscore_i64_law:
      "complies view rlater (zrangebyscore_i64 (rds E) k score)
         (\<lambda>V x V'. \<exists>ms. sp_zrangebyscore k (dbl (sint score)) V ms V' \<and> map parse_i64 ms = map Some x)"
    and zrem_i64_law: "complies view rlater (zrem_i64 (rds E) k ident) (sp_zrem k (show_i64 ident))"
    and sadd_law: "complies view rlater (sadd (rds E) k m) (sp_sadd k m)"
    and publish_law: "complies view rlater (publish_cmd (rds E) ch m) (sp_publish ch m)"
    and lpush_law: "complies view rlater (lpush (rds E) k micros) (sp_lpush k micros)"
    and ltrim_law: "complies view rlater (ltrim (rds E) k 0 stop) (sp_ltrim k stop)"
    and xreadgroup_law: "complies view rlater (xreadgroup (rds E) k v ch n bl) sp_stream"
    and xack_law: "complies view rlater (xack (rds E) k v ids) sp_stream"

section \<open>Frames\<close>

text \<open>A command writes its own key only, and no command turns the clock back.\<close>

definition writes_only :: "string set \<Rightarrow> (rview \<Rightarrow> 'x \<Rightarrow> rview \<Rightarrow> bool) \<Rightarrow> bool" where
  "writes_only K R \<longleftrightarrow>
     (\<forall>V x V'. R V x V' \<longrightarrow> clock V' = clock V \<and> (\<forall>k. k \<notin> K \<longrightarrow> cells V' k = cells V k))"

named_theorems frames \<open>which keys each command can write\<close>

lemma frame_set_nx_px [frames]: "writes_only {k} (sp_set_nx_px k v ttl)"
  and frame_set_px [frames]: "writes_only {k} (sp_set_px k v ttl)"
  and frame_setex [frames]: "writes_only {k} (sp_setex k secs v)"
  and frame_get [frames]: "writes_only {} (sp_get k)"
  and frame_get_i64 [frames]: "writes_only {} (sp_get_i64 k)"
  and frame_del [frames]: "writes_only {k} (sp_del k)"
  and frame_scan [frames]: "writes_only {} (sp_scan mt)"
  and frame_zrange [frames]: "writes_only {} (sp_zrangebyscore k i)"
  and frame_publish [frames]: "writes_only {} (sp_publish ch m)"
  and frame_stream [frames]: "writes_only {} sp_stream"
  by (auto simp: writes_only_def sp_set_nx_px_def sp_set_px_def sp_setex_def sp_get_def
      sp_get_i64_def sp_del_def sp_scan_def sp_zrangebyscore_def sp_publish_def
      sp_stream_def split: if_splits)

lemma frame_expire [frames]: "writes_only {k} (sp_expire k secs)"
  by (auto simp: writes_only_def sp_expire_def split: option.splits)

lemma frame_incr [frames]: "writes_only {k} (sp_incr k d)"
  by (auto simp: writes_only_def sp_incr_def split: option.splits rval.splits prod.splits)

lemma frame_zadd [frames]: "writes_only {k} (sp_zadd k m i)"
  by (auto simp: writes_only_def sp_zadd_def split: option.splits rval.splits prod.splits)

lemma frame_zrem [frames]: "writes_only {k} (sp_zrem k m)"
  by (auto simp: writes_only_def sp_zrem_def split: option.splits rval.splits prod.splits)

lemma frame_sadd [frames]: "writes_only {k} (sp_sadd k m)"
  by (auto simp: writes_only_def sp_sadd_def split: option.splits rval.splits prod.splits)

lemma frame_lpush [frames]: "writes_only {k} (sp_lpush k i)"
  by (auto simp: writes_only_def sp_lpush_def split: option.splits rval.splits prod.splits)

lemma frame_ltrim [frames]: "writes_only {k} (sp_ltrim k stop)"
  by (auto simp: writes_only_def sp_ltrim_def split: option.splits rval.splits prod.splits)

lemma frame_zrange_i64 [frames]:
  "writes_only {} (\<lambda>V x V'. \<exists>ms. sp_zrangebyscore k i V ms V' \<and> map parse_i64 ms = map Some x)"
  using frame_zrange[of k i] unfolding writes_only_def by blast

text \<open>
  The cell of key \<open>k\<close> after a call that does not write it: what was there, unless it expired.
\<close>

lemma complies_frame:
  assumes "complies view rlater f R" and "writes_only K R" and "k \<notin> K" and "f r = (x, r')"
  shows "clock (view r) \<le> clock (view r')
       \<and> cells (view r') k = unexpired (clock (view r')) (cells (view r) k)"
  using assms(1,4)
proof (cases rule: complies_any)
  case (same V)
  then show ?thesis by (auto simp: rlater_def)
next
  case (effect V y)
  with assms(2,3) have "clock (view r') = clock V" "cells (view r') k = cells V k"
    unfolding writes_only_def by blast+
  with effect(1) show ?thesis by (auto simp: rlater_def)
qed

end
