(* ===== verification/Store_Redis.thy ===== *)
theory Store_Redis imports Redis_Laws
begin

text \<open>
  \<open>RedisStore\<close> of \<open>src/matcher/src/store.rs\<close>: event claims, saved windows, the two sorted
  sets of due times (window deadlines and incident escalations), the registered sources of a
  transaction, publishing and the counters. One definition per method, each the sequence of
  commands the method awaits. The last part derives what the methods do to a documented server:
  the two sorted sets implement one contract, \<open>due_queue\<close>.
\<close>

section \<open>Keys\<close>

definition dedup_key :: "('r, 'p) env \<Rightarrow> uuid \<Rightarrow> string" where
  "dedup_key E u = ''dedup:event:'' @ uuid_str E u"

definition window_key :: "('r, 'p) env \<Rightarrow> uuid \<Rightarrow> string" where
  "window_key E u = ''window:'' @ uuid_str E u"

definition sources_key :: "('r, 'p) env \<Rightarrow> uuid \<Rightarrow> string" where
  "sources_key E u = ''sources:'' @ uuid_str E u"

definition deadlines_key :: string where "deadlines_key = ''deadlines''"
definition escalations_key :: string where "escalations_key = ''incident_escalations''"

section \<open>The methods\<close>

definition ensure_consumer_group ::
  "('r, 'p) env \<Rightarrow> string \<Rightarrow> string \<Rightarrow> ('r, 'p, reconciler_error, unit) io" where
  "ensure_consumer_group E stream grp =
     and_then (attempt (redis_call (xgroup_create (rds E) stream grp ''$''))) (\<lambda>result.
       case result of
         Inr _ \<Rightarrow> ok ()
       | Inl e \<Rightarrow> if contains_str ''BUSYGROUP'' e then ok () else err (Redis e))"

definition try_claim_event ::
  "('r, 'p) env \<Rightarrow> uuid \<Rightarrow> u64 \<Rightarrow> ('r, 'p, reconciler_error, bool) io" where
  "try_claim_event E ident ttl_ms =
     and_then (rcall (set_nx_px (rds E) (dedup_key E ident) ''1'' ttl_ms)) (\<lambda>result.
       ok (result \<noteq> None))"

definition save_window ::
  "('r, 'p) env \<Rightarrow> partial_transaction \<Rightarrow> ('r, 'p, reconciler_error, unit) io" where
  "save_window E partial =
     and_then (map_err Serde (lift_result (window_to_json E partial))) (\<lambda>json.
       rcall (set_px (rds E) (window_key E (pt_transaction_id partial)) json 30000))"

definition load_window ::
  "('r, 'p) env \<Rightarrow> uuid \<Rightarrow> ('r, 'p, reconciler_error, partial_transaction option) io" where
  "load_window E tx =
     and_then (rcall (get_str (rds E) (window_key E tx))) (\<lambda>json.
       case json of
         Some s \<Rightarrow> and_then (map_err Serde (lift_result (window_from_json E s))) (\<lambda>p. ok (Some p))
       | None \<Rightarrow> ok None)"

definition delete_window :: "('r, 'p) env \<Rightarrow> uuid \<Rightarrow> ('r, 'p, reconciler_error, unit) io" where
  "delete_window E tx = rcall (del (rds E) (window_key E tx))"

text \<open>One page of keys: a key that cannot be read or parsed is skipped.\<close>

primrec load_keys ::
  "('r, 'p) env \<Rightarrow> string list \<Rightarrow> partial_transaction list \<Rightarrow>
     ('r, 'p, reconciler_error, partial_transaction list) io" where
  "load_keys E [] acc = ok acc"
| "load_keys E (key # keys) acc =
     and_then (attempt (redis_call (get_str (rds E) key))) (\<lambda>r.
       case r of
         Inr (Some s) \<Rightarrow>
           (case window_from_json E s of
              Inr p \<Rightarrow> load_keys E keys (acc @ [p])
            | Inl _ \<Rightarrow> load_keys E keys acc)
       | _ \<Rightarrow> load_keys E keys acc)"

text \<open>
  The scan loop ends when the server answers cursor 0, which nothing in the program bounds:
  \<open>fuel\<close> is the number of pages allowed, and \<open>None\<close> is a scan that has not ended by then.
\<close>

primrec load_all_windows ::
  "nat \<Rightarrow> ('r, 'p) env \<Rightarrow> u64 \<Rightarrow> partial_transaction list \<Rightarrow>
     ('r, 'p, reconciler_error, partial_transaction list option) io" where
  "load_all_windows 0 E cursor acc = ok None"
| "load_all_windows (Suc fuel) E cursor acc =
     and_then (rcall (scan (rds E) cursor ''window:*'' 100)) (\<lambda>page.
       case page of (next_cursor, keys) \<Rightarrow>
         and_then (load_keys E keys acc) (\<lambda>ws.
           if next_cursor = 0 then ok (Some ws)
           else load_all_windows fuel E next_cursor ws))"

definition add_deadline ::
  "('r, 'p) env \<Rightarrow> uuid \<Rightarrow> i64 \<Rightarrow> ('r, 'p, reconciler_error, unit) io" where
  "add_deadline E tx due_ms = rcall (zadd (rds E) deadlines_key (uuid_str E tx) due_ms)"

primrec pop_deadlines_loop ::
  "('r, 'p) env \<Rightarrow> string list \<Rightarrow> uuid list \<Rightarrow> ('r, 'p, reconciler_error, uuid list) io" where
  "pop_deadlines_loop E [] acc = ok acc"
| "pop_deadlines_loop E (m # ms) acc =
     and_then (rcall (zrem (rds E) deadlines_key m)) (\<lambda>removed.
       if removed = 1 then
         (case uuid_parse E m of
            Some ident \<Rightarrow> pop_deadlines_loop E ms (acc @ [ident])
          | None \<Rightarrow> pop_deadlines_loop E ms acc)
       else pop_deadlines_loop E ms acc)"

definition pop_expired_deadlines ::
  "('r, 'p) env \<Rightarrow> i64 \<Rightarrow> ('r, 'p, reconciler_error, uuid list) io" where
  "pop_expired_deadlines E now_ms =
     and_then (rcall (zrangebyscore (rds E) deadlines_key now_ms)) (\<lambda>members.
       pop_deadlines_loop E members [])"

definition remove_deadline :: "('r, 'p) env \<Rightarrow> uuid \<Rightarrow> ('r, 'p, reconciler_error, unit) io" where
  "remove_deadline E tx =
     and_then (rcall (zrem (rds E) deadlines_key (uuid_str E tx))) (\<lambda>_. ok ())"

definition add_escalation ::
  "('r, 'p) env \<Rightarrow> i64 \<Rightarrow> i64 \<Rightarrow> ('r, 'p, reconciler_error, unit) io" where
  "add_escalation E incident_id escalate_at =
     rcall (zadd_i64 (rds E) escalations_key incident_id escalate_at)"

primrec pop_escalations_loop ::
  "('r, 'p) env \<Rightarrow> i64 list \<Rightarrow> i64 list \<Rightarrow> ('r, 'p, reconciler_error, i64 list) io" where
  "pop_escalations_loop E [] acc = ok acc"
| "pop_escalations_loop E (i # is) acc =
     and_then (rcall (zrem_i64 (rds E) escalations_key i)) (\<lambda>removed.
       if removed = 1 then pop_escalations_loop E is (acc @ [i])
       else pop_escalations_loop E is acc)"

definition pop_expired_escalations ::
  "('r, 'p) env \<Rightarrow> i64 \<Rightarrow> ('r, 'p, reconciler_error, i64 list) io" where
  "pop_expired_escalations E now_ms =
     and_then (rcall (zrangebyscore_i64 (rds E) escalations_key now_ms)) (\<lambda>members.
       pop_escalations_loop E members [])"

definition remove_escalation :: "('r, 'p) env \<Rightarrow> i64 \<Rightarrow> ('r, 'p, reconciler_error, unit) io" where
  "remove_escalation E incident_id =
     and_then (rcall (zrem_i64 (rds E) escalations_key incident_id)) (\<lambda>_. ok ())"

definition try_register_source ::
  "('r, 'p) env \<Rightarrow> uuid \<Rightarrow> source \<Rightarrow> ('r, 'p, reconciler_error, bool) io" where
  "try_register_source E tx src =
     and_then (rcall (sadd (rds E) (sources_key E tx) (source_name src))) (\<lambda>added.
     and_then (rcall (expire (rds E) (sources_key E tx) 60)) (\<lambda>_.
     ok (added = 1)))"

definition cleanup_sources :: "('r, 'p) env \<Rightarrow> uuid \<Rightarrow> ('r, 'p, reconciler_error, unit) io" where
  "cleanup_sources E tx = rcall (del (rds E) (sources_key E tx))"

definition publish ::
  "('r, 'p) env \<Rightarrow> string \<Rightarrow> string \<Rightarrow> ('r, 'p, reconciler_error, unit) io" where
  "publish E channel msg = and_then (rcall (publish_cmd (rds E) channel msg)) (\<lambda>_. ok ())"

definition record_event_processed ::
  "('r, 'p) env \<Rightarrow> string \<Rightarrow> i64 \<Rightarrow> i64 \<Rightarrow> ('r, 'p, reconciler_error, unit) io" where
  "record_event_processed E src total_micros logic_micros =
     and_then (rcall (incr (rds E) ''metrics:events:total'' 1)) (\<lambda>_.
     and_then (read_clock (utc_rfc3339 E)) (\<lambda>now.
     and_then (rcall (setex (rds E) (''source:last_seen:'' @ src) 3600 now)) (\<lambda>_.
     and_then (rcall (incr (rds E) (''source:events:'' @ src) 1)) (\<lambda>_.
     and_then (rcall (lpush (rds E) ''metrics:latencies:total'' total_micros)) (\<lambda>_.
     and_then (rcall (ltrim (rds E) ''metrics:latencies:total'' 0 999)) (\<lambda>_.
     and_then (rcall (lpush (rds E) ''metrics:latencies:logic'' logic_micros)) (\<lambda>_.
     and_then (rcall (ltrim (rds E) ''metrics:latencies:logic'' 0 999)) (\<lambda>_.
     and_then (rcall (expire (rds E) ''metrics:events:total'' 3600)) (\<lambda>_.
     ok ())))))))))"

definition record_match_result :: "('r, 'p) env \<Rightarrow> bool \<Rightarrow> ('r, 'p, reconciler_error, unit) io" where
  "record_match_result E matched =
     (if matched then rcall (incr (rds E) ''metrics:matches:success'' 1)
      else rcall (incr (rds E) ''metrics:matches:failed'' 1))"

section \<open>The due-time contract\<close>

text \<open>
  What the engine expects of a set of due times: \<open>add\<close> records one (replacing an earlier one
  of the same key), \<open>pop\<close> returns every key that is due, each once, and forgets exactly those,
  \<open>remove\<close> forgets one. Times are compared after rounding.
\<close>

locale due_queue =
  fixes add :: "'k \<Rightarrow> i64 \<Rightarrow> ('s, 'e, unit) proc"
    and pop :: "i64 \<Rightarrow> ('s, 'e, 'k list) proc"
    and remove :: "'k \<Rightarrow> ('s, 'e, unit) proc"
    and due :: "'s \<Rightarrow> 'k \<rightharpoonup> int"
    and rnd :: "int \<Rightarrow> int"
    and wf :: "'s \<Rightarrow> bool"
  assumes rnd_mono: "i \<le> j \<Longrightarrow> rnd i \<le> rnd j"
    and add_law: "wf s \<Longrightarrow> run (add k d) s = (Inr (), s') \<Longrightarrow>
      wf s' \<and> due s' = (due s)(k \<mapsto> rnd (sint d))"
    and remove_law: "wf s \<Longrightarrow> run (remove k) s = (Inr (), s') \<Longrightarrow>
      wf s' \<and> due s' = (due s)(k := None)"
    and pop_law: "wf s \<Longrightarrow> run (pop now) s = (Inr ks, s') \<Longrightarrow>
      wf s' \<and> distinct ks \<and> set ks = {k. \<exists>i. due s k = Some i \<and> i \<le> rnd (sint now)}
      \<and> due s' = (due s) |` (- set ks)"
begin

lemma add_then_pop:
  assumes "wf s" and "run (add k d) s = (Inr (), s1)" and "run (pop now) s1 = (Inr ks, s2)"
    and "sint d \<le> sint now"
  shows "k \<in> set ks"
  using add_law[OF assms(1,2)] pop_law[OF _ assms(3)] rnd_mono[OF assms(4)] by auto

lemma pop_then_pop:
  assumes "wf s" and "run (pop now) s = (Inr ks, s1)" and "run (pop now') s1 = (Inr ks', s2)"
  shows "set ks \<inter> set ks' = {}"
  using pop_law[OF assms(1,2)] pop_law[OF _ assms(3)] by (auto simp: restrict_map_def split: if_splits)

lemma remove_then_pop:
  assumes "wf s" and "run (remove k) s = (Inr (), s1)" and "run (pop now) s1 = (Inr ks, s2)"
  shows "k \<notin> set ks"
  using remove_law[OF assms(1,2)] pop_law[OF _ assms(3)] by auto

lemma pop_keeps_rest:
  assumes "wf s" and "run (pop now) s = (Inr ks, s1)" and "due s k \<noteq> None" and "k \<notin> set ks"
  shows "due s1 k = due s k"
  using pop_law[OF assms(1,2)] assms(3,4) by (auto simp: restrict_map_def)

end

section \<open>The sorted sets of a documented server\<close>

lemma run_rcall_Inr:
  "run (rcall f) s = (Inr x, s') \<longleftrightarrow> (\<exists>r. f (redis_st s) = (Inr x, r) \<and> s' = s\<lparr>redis_st := r\<rparr>)"
  by (cases "f (redis_st s)") (auto simp: run_simps map_sum_def split: sum.splits)

text \<open>The members of a sorted set, and that it is one, without expiry, of written-out members.\<close>

definition zmembers :: "('r \<Rightarrow> rview) \<Rightarrow> string \<Rightarrow> ('r, 'p) world \<Rightarrow> (string \<rightharpoonup> int)" where
  "zmembers view k s = zset_of (cells (view (redis_st s)) k)"

definition zset_ok :: "('r \<Rightarrow> rview) \<Rightarrow> string \<Rightarrow> string set \<Rightarrow> ('r, 'p) world \<Rightarrow> bool" where
  "zset_ok view k M s \<longleftrightarrow>
     (\<forall>e. cells (view (redis_st s)) k = Some e \<longrightarrow> (\<exists>z. e = (RZset z, None) \<and> dom z \<subseteq> M))"

lemma zset_ok_cases:
  assumes "zset_ok view k M s"
  obtains "cells (view (redis_st s)) k = None" and "zmembers view k s = Map.empty"
        | z where "cells (view (redis_st s)) k = Some (RZset z, None)" and "dom z \<subseteq> M"
            and "zmembers view k s = z"
  using assms by (cases "cells (view (redis_st s)) k") (auto simp: zset_ok_def zmembers_def zset_of_def)

lemma zset_ok_later:
  assumes "zset_ok view k M s" and "rlater (view (redis_st s)) V"
  shows "cells V k = cells (view (redis_st s)) k"
  using assms by (cases rule: zset_ok_cases) (auto simp: rlater_def)

context redis_server
begin

lemma zadd_step:
  assumes ok: "zset_ok view k M s" and m: "m \<in> M"
    and law: "complies view rlater f (sp_zadd k m i)" and f: "run (rcall f) s = (Inr x, s')"
  shows "zset_ok view k M s'" and "zmembers view k s' = (zmembers view k s)(m \<mapsto> i)"
proof -
  from f obtain r where r: "f (redis_st s) = (Inr x, r)" "s' = s\<lparr>redis_st := r\<rparr>"
    unfolding run_rcall_Inr by blast
  from law r(1) obtain V where V: "rlater (view (redis_st s)) V" "sp_zadd k m i V x (view r)"
    by (rule complies_ok)
  from zset_ok_later[OF ok V(1)] have c: "cells V k = cells (view (redis_st s)) k" .
  from ok have "zset_ok view k M s' \<and> zmembers view k s' = (zmembers view k s)(m \<mapsto> i)"
    using V(2) r(2) c m
    by (cases rule: zset_ok_cases)
      (auto simp: sp_zadd_def zset_ok_def zmembers_def zset_of_def)
  then show "zset_ok view k M s'" "zmembers view k s' = (zmembers view k s)(m \<mapsto> i)" by auto
qed

lemma zrem_step:
  assumes ok: "zset_ok view k M s"
    and law: "complies view rlater f (sp_zrem k m)" and f: "run (rcall f) s = (Inr x, s')"
  shows "zset_ok view k M s'" and "zmembers view k s' = (zmembers view k s)(m := None)"
    and "x = (if zmembers view k s m = None then 0 else 1)"
proof -
  from f obtain r where r: "f (redis_st s) = (Inr x, r)" "s' = s\<lparr>redis_st := r\<rparr>"
    unfolding run_rcall_Inr by blast
  from law r(1) obtain V where V: "rlater (view (redis_st s)) V" "sp_zrem k m V x (view r)"
    by (rule complies_ok)
  from zset_ok_later[OF ok V(1)] have c: "cells V k = cells (view (redis_st s)) k" .
  from ok have "zset_ok view k M s' \<and> zmembers view k s' = (zmembers view k s)(m := None)
     \<and> x = (if zmembers view k s m = None then 0 else 1)"
    using V(2) r(2) c
    by (cases rule: zset_ok_cases)
      (auto simp: sp_zrem_def zset_ok_def zmembers_def zset_of_def split: if_splits)
  then show "zset_ok view k M s'" "zmembers view k s' = (zmembers view k s)(m := None)"
    "x = (if zmembers view k s m = None then 0 else 1)" by auto
qed

lemma zrange_step:
  assumes ok: "zset_ok view k M s"
    and law: "complies view rlater f (sp_zrangebyscore k i)" and f: "run (rcall f) s = (Inr x, s')"
  shows "zset_ok view k M s'" and "zmembers view k s' = zmembers view k s"
    and "distinct x" and "set x = {m. \<exists>j. zmembers view k s m = Some j \<and> j \<le> i}"
proof -
  from f obtain r where r: "f (redis_st s) = (Inr x, r)" "s' = s\<lparr>redis_st := r\<rparr>"
    unfolding run_rcall_Inr by blast
  from law r(1) obtain V where V: "rlater (view (redis_st s)) V" "sp_zrangebyscore k i V x (view r)"
    by (rule complies_ok)
  from zset_ok_later[OF ok V(1)] have c: "cells V k = cells (view (redis_st s)) k" .
  from ok have "zset_ok view k M s' \<and> zmembers view k s' = zmembers view k s
     \<and> distinct x \<and> set x = {m. \<exists>j. zmembers view k s m = Some j \<and> j \<le> i}"
    using V(2) r(2) c
    by (cases rule: zset_ok_cases)
      (auto simp: sp_zrangebyscore_def zset_ok_def zmembers_def zset_of_def)
  then show "zset_ok view k M s'" "zmembers view k s' = zmembers view k s"
    "distinct x" "set x = {m. \<exists>j. zmembers view k s m = Some j \<and> j \<le> i}" by auto
qed

lemma zrange_i64_step:
  assumes ok: "zset_ok view k (range show_i64) s"
    and f: "run (rcall (zrangebyscore_i64 (rds E) k now)) s = (Inr x, s')"
  shows "zset_ok view k (range show_i64) s'" and "zmembers view k s' = zmembers view k s"
    and "distinct x"
    and "set x = {j. \<exists>i. zmembers view k s (show_i64 j) = Some i \<and> i \<le> dbl (sint now)}"
proof -
  from f obtain r where r: "zrangebyscore_i64 (rds E) k now (redis_st s) = (Inr x, r)"
    "s' = s\<lparr>redis_st := r\<rparr>"
    unfolding run_rcall_Inr by blast
  from zrangebyscore_i64_law r(1) obtain V ms where V: "rlater (view (redis_st s)) V"
    "sp_zrangebyscore k (dbl (sint now)) V ms (view r)" "map parse_i64 ms = map Some x"
    by (rule complies_ok) blast
  from zset_ok_later[OF ok V(1)] have c: "cells V k = cells (view (redis_st s)) k" .
  have main: "zset_ok view k (range show_i64) s' \<and> zmembers view k s' = zmembers view k s
     \<and> distinct ms \<and> set ms = {m. \<exists>j. zmembers view k s m = Some j \<and> j \<le> dbl (sint now)}
     \<and> set ms \<subseteq> range show_i64"
    using ok
  proof (cases rule: zset_ok_cases)
    case 1
    with V(2) r(2) c show ?thesis
      by (auto simp: sp_zrangebyscore_def zset_ok_def zmembers_def zset_of_def)
  next
    case (2 z)
    then have "m \<in> range show_i64" if "z m = Some j" for m j using that by blast
    with 2 V(2) r(2) c show ?thesis
      by (auto simp: sp_zrangebyscore_def zset_ok_def zmembers_def zset_of_def)
  qed
  have ms: "ms = map show_i64 x"
  proof -
    from main have "\<exists>y. ms = map show_i64 y" unfolding ex_map_conv by blast
    with V(3) show ?thesis by (auto simp: o_def inj_map_eq_map)
  qed
  have img: "show_i64 ` set x = {m. \<exists>j. zmembers view k s m = Some j \<and> j \<le> dbl (sint now)}"
    using main unfolding ms by simp
  have "j \<in> set x \<longleftrightarrow> show_i64 j \<in> show_i64 ` set x" for j by auto
  then show "set x = {j. \<exists>i. zmembers view k s (show_i64 j) = Some i \<and> i \<le> dbl (sint now)}"
    unfolding img by blast
  from main show "distinct x" unfolding ms by (simp add: distinct_map)
  from main show "zset_ok view k (range show_i64) s'" "zmembers view k s' = zmembers view k s"
    by simp_all
qed

lemma pop_deadlines_loop_run:
  assumes "zset_ok view deadlines_key (range (uuid_str E)) s"
    and "distinct ms" and "\<forall>m \<in> set ms. zmembers view deadlines_key s m \<noteq> None"
    and "run (pop_deadlines_loop E ms acc) s = (Inr ks, s')"
  shows "zset_ok view deadlines_key (range (uuid_str E)) s'
     \<and> zmembers view deadlines_key s' = (zmembers view deadlines_key s) |` (- set ms)
     \<and> (\<exists>ids. ms = map (uuid_str E) ids \<and> ks = acc @ ids)"
  using assms
proof (induction ms arbitrary: s acc)
  case Nil
  then show ?case by (simp add: run_simps)
next
  case (Cons m ms)
  from Cons.prems(4) obtain x t where t: "run (rcall (zrem (rds E) deadlines_key m)) s = (Inr x, t)"
    and rest: "run (if x = 1 then (case uuid_parse E m of
            Some ident \<Rightarrow> pop_deadlines_loop E ms (acc @ [ident])
          | None \<Rightarrow> pop_deadlines_loop E ms acc) else pop_deadlines_loop E ms acc) t = (Inr ks, s')"
    unfolding pop_deadlines_loop.simps run_and_then_Inr by blast
  note z = zrem_step[OF Cons.prems(1) zrem_law t]
  have "m \<in> range (uuid_str E)"
    using Cons.prems(1,3) by (cases rule: zset_ok_cases) auto
  then obtain u where u: "m = uuid_str E u" by blast
  from z Cons.prems(3) have "x = 1" by simp
  with rest u have rest': "run (pop_deadlines_loop E ms (acc @ [u])) t = (Inr ks, s')"
    by (simp add: uuid_round_trip)
  have pending: "\<forall>m' \<in> set ms. zmembers view deadlines_key t m' \<noteq> None"
    using z Cons.prems(2,3) by auto
  have d: "distinct ms" using Cons.prems(2) by simp
  note l = Cons.IH[OF z(1) d pending rest']
  have IH: "zset_ok view deadlines_key (range (uuid_str E)) s'"
    "zmembers view deadlines_key s' = (zmembers view deadlines_key t) |` (- set ms)"
    "\<exists>ids. ms = map (uuid_str E) ids \<and> ks = (acc @ [u]) @ ids"
    using l by blast+
  have "zmembers view deadlines_key s' = (zmembers view deadlines_key s) |` (- set (m # ms))"
    unfolding IH(2) z(2) by (rule ext) (simp add: restrict_map_def)
  moreover from IH(3) u have "\<exists>ids. m # ms = map (uuid_str E) ids \<and> ks = acc @ ids"
    by (metis append_Cons append_Nil append_assoc list.simps(9))
  ultimately show ?case using IH(1) by blast
qed

lemma pop_escalations_loop_run:
  assumes "zset_ok view escalations_key (range show_i64) s"
    and "distinct js" and "\<forall>j \<in> set js. zmembers view escalations_key s (show_i64 j) \<noteq> None"
    and "run (pop_escalations_loop E js acc) s = (Inr ks, s')"
  shows "zset_ok view escalations_key (range show_i64) s'
     \<and> zmembers view escalations_key s' = (zmembers view escalations_key s) |` (- set (map show_i64 js))
     \<and> ks = acc @ js"
  using assms
proof (induction js arbitrary: s acc)
  case Nil
  then show ?case by (simp add: run_simps)
next
  case (Cons j js)
  from Cons.prems(4) obtain x t
    where t: "run (rcall (zrem_i64 (rds E) escalations_key j)) s = (Inr x, t)"
    and rest: "run (if x = 1 then pop_escalations_loop E js (acc @ [j])
        else pop_escalations_loop E js acc) t = (Inr ks, s')"
    unfolding pop_escalations_loop.simps run_and_then_Inr by blast
  note z = zrem_step[OF Cons.prems(1) zrem_i64_law t]
  from z Cons.prems(3) have "x = 1" by simp
  with rest have rest': "run (pop_escalations_loop E js (acc @ [j])) t = (Inr ks, s')" by simp
  have pending: "\<forall>i \<in> set js. zmembers view escalations_key t (show_i64 i) \<noteq> None"
    using z Cons.prems(2,3) by auto
  have d: "distinct js" using Cons.prems(2) by simp
  note l = Cons.IH[OF z(1) d pending rest']
  have IH: "zset_ok view escalations_key (range show_i64) s'"
    "zmembers view escalations_key s'
       = (zmembers view escalations_key t) |` (- set (map show_i64 js))"
    "ks = (acc @ [j]) @ js"
    using l by blast+
  have "zmembers view escalations_key s'
      = (zmembers view escalations_key s) |` (- set (map show_i64 (j # js)))"
    unfolding IH(2) z(2) by (rule ext) (simp add: restrict_map_def)
  with IH(1,3) show ?case by simp
qed

end

definition deadline_of ::
  "('r, 'p) env \<Rightarrow> ('r \<Rightarrow> rview) \<Rightarrow> ('r, 'p) world \<Rightarrow> uuid \<rightharpoonup> int" where
  "deadline_of E view s u = zmembers view deadlines_key s (uuid_str E u)"

definition escalation_of :: "('r \<Rightarrow> rview) \<Rightarrow> ('r, 'p) world \<Rightarrow> i64 \<rightharpoonup> int" where
  "escalation_of view s i = zmembers view escalations_key s (show_i64 i)"

definition deadlines_ok :: "('r, 'p) env \<Rightarrow> ('r \<Rightarrow> rview) \<Rightarrow> ('r, 'p) world \<Rightarrow> bool" where
  "deadlines_ok E view s \<longleftrightarrow> zset_ok view deadlines_key (range (uuid_str E)) s"

definition escalations_ok :: "('r \<Rightarrow> rview) \<Rightarrow> ('r, 'p) world \<Rightarrow> bool" where
  "escalations_ok view s \<longleftrightarrow> zset_ok view escalations_key (range show_i64) s"

text \<open>Both sorted sets implement the contract, for any documented server.\<close>

sublocale redis_server \<subseteq> dl: due_queue "add_deadline E" "pop_expired_deadlines E"
  "remove_deadline E" "deadline_of E view" dbl "deadlines_ok E view"
proof
  fix s s' :: "('r, 'p) world" and k d now ks
  have inj: "uuid_str E u = uuid_str E v \<longleftrightarrow> u = v" for u v
    by (metis option.inject uuid_round_trip)
  show "deadlines_ok E view s' \<and> deadline_of E view s' = (deadline_of E view s)(k \<mapsto> dbl (sint d))"
    if wf: "deadlines_ok E view s" and run: "run (add_deadline E k d) s = (Inr (), s')"
  proof -
    note z = zadd_step[OF wf[unfolded deadlines_ok_def] rangeI zadd_law
        run[unfolded add_deadline_def]]
    from z(1) show ?thesis
      by (simp add: deadlines_ok_def deadline_of_def z(2) fun_eq_iff inj)
  qed
  show "deadlines_ok E view s' \<and> deadline_of E view s' = (deadline_of E view s)(k := None)"
    if wf: "deadlines_ok E view s" and run: "run (remove_deadline E k) s = (Inr (), s')"
  proof -
    from run obtain x where x: "run (rcall (zrem (rds E) deadlines_key (uuid_str E k))) s = (Inr x, s')"
      unfolding remove_deadline_def run_and_then_Inr by (auto simp: run_simps)
    note z = zrem_step[OF wf[unfolded deadlines_ok_def] zrem_law x]
    from z(1) show ?thesis
      by (simp add: deadlines_ok_def deadline_of_def z(2) fun_eq_iff inj)
  qed
  show "deadlines_ok E view s' \<and> distinct ks
      \<and> set ks = {k. \<exists>i. deadline_of E view s k = Some i \<and> i \<le> dbl (sint now)}
      \<and> deadline_of E view s' = (deadline_of E view s) |` (- set ks)"
    if wf: "deadlines_ok E view s" and run: "run (pop_expired_deadlines E now) s = (Inr ks, s')"
  proof -
    from run obtain ms t
      where ms: "run (rcall (zrangebyscore (rds E) deadlines_key now)) s = (Inr ms, t)"
        and loop: "run (pop_deadlines_loop E ms []) t = (Inr ks, s')"
      unfolding pop_expired_deadlines_def run_and_then_Inr by blast
    note z = zrange_step[OF wf[unfolded deadlines_ok_def] zrangebyscore_law ms]
    have "\<forall>m \<in> set ms. zmembers view deadlines_key t m \<noteq> None"
      unfolding z(2) z(4) by auto
    note l = pop_deadlines_loop_run[OF z(1) z(3) this loop]
    from l have ids: "ms = map (uuid_str E) ks" by auto
    have mem: "k \<in> set ks \<longleftrightarrow> uuid_str E k \<in> set ms" for k
      unfolding ids by (auto simp: inj)
    have rest: "zmembers view deadlines_key s' = (zmembers view deadlines_key s) |` (- set ms)"
      using l unfolding z(2) by blast
    have "distinct ks" using z(3) unfolding ids by (simp add: distinct_map)
    moreover have "set ks = {k. \<exists>i. deadline_of E view s k = Some i \<and> i \<le> dbl (sint now)}"
      using z(4) by (auto simp: mem deadline_of_def set_eq_iff)
    moreover have "deadline_of E view s' = (deadline_of E view s) |` (- set ks)"
      by (rule ext) (simp add: deadline_of_def rest restrict_map_def mem)
    ultimately show ?thesis using l by (simp add: deadlines_ok_def)
  qed
qed (rule dbl_mono)

sublocale redis_server \<subseteq> esc: due_queue "add_escalation E" "pop_expired_escalations E"
  "remove_escalation E" "escalation_of view" dbl "escalations_ok view"
proof
  fix s s' :: "('r, 'p) world" and k d now ks
  show "escalations_ok view s' \<and> escalation_of view s' = (escalation_of view s)(k \<mapsto> dbl (sint d))"
    if wf: "escalations_ok view s" and run: "run (add_escalation E k d) s = (Inr (), s')"
  proof -
    note z = zadd_step[OF wf[unfolded escalations_ok_def] rangeI zadd_i64_law
        run[unfolded add_escalation_def]]
    from z(1) show ?thesis
      by (simp add: escalations_ok_def escalation_of_def z(2) fun_eq_iff)
  qed
  show "escalations_ok view s' \<and> escalation_of view s' = (escalation_of view s)(k := None)"
    if wf: "escalations_ok view s" and run: "run (remove_escalation E k) s = (Inr (), s')"
  proof -
    from run obtain x where x: "run (rcall (zrem_i64 (rds E) escalations_key k)) s = (Inr x, s')"
      unfolding remove_escalation_def run_and_then_Inr by (auto simp: run_simps)
    note z = zrem_step[OF wf[unfolded escalations_ok_def] zrem_i64_law x]
    from z(1) show ?thesis
      by (simp add: escalations_ok_def escalation_of_def z(2) fun_eq_iff)
  qed
  show "escalations_ok view s' \<and> distinct ks
      \<and> set ks = {k. \<exists>i. escalation_of view s k = Some i \<and> i \<le> dbl (sint now)}
      \<and> escalation_of view s' = (escalation_of view s) |` (- set ks)"
    if wf: "escalations_ok view s" and run: "run (pop_expired_escalations E now) s = (Inr ks, s')"
  proof -
    from run obtain js t
      where js: "run (rcall (zrangebyscore_i64 (rds E) escalations_key now)) s = (Inr js, t)"
        and loop: "run (pop_escalations_loop E js []) t = (Inr ks, s')"
      unfolding pop_expired_escalations_def run_and_then_Inr by blast
    note z = zrange_i64_step[OF wf[unfolded escalations_ok_def] js]
    have "\<forall>j \<in> set js. zmembers view escalations_key t (show_i64 j) \<noteq> None"
      unfolding z(2) z(4) by auto
    note l = pop_escalations_loop_run[OF z(1) z(3) this loop]
    from l have ks: "ks = js" by simp
    have rest: "zmembers view escalations_key s'
        = (zmembers view escalations_key s) |` (- set (map show_i64 js))"
      using l unfolding z(2) by blast
    have "escalation_of view s' = (escalation_of view s) |` (- set ks)"
      by (rule ext) (simp add: escalation_of_def rest restrict_map_def ks inj_image_mem_iff inj_def)
    with z(3,4) l show ?thesis by (simp add: escalations_ok_def escalation_of_def ks)
  qed
qed (rule dbl_mono)

end
