(* ===== verification/Store_Pg.thy ===== *)
theory Store_Pg imports Services
begin

text \<open>
  \<open>PostgresStore\<close> of \<open>src/matcher/src/store.rs\<close> over the schema of
  \<open>src/matcher/migrations\<close>. The enum types, the three tables the matcher writes (with the
  columns it reads or writes) and the meaning of each SQL statement of the store on them are
  definitions, translated from the SQL text: which rows the statement touches, what its conflict
  clause does, and when its casts, column lengths or foreign keys make it fail. Whether a
  statement reaches the server is the service's business: \<open>pg_server\<close> says that a call either
  has the effect of its statement or fails.
\<close>

section \<open>The schema\<close>

datatype overall_status = St_matched | St_mismatch | St_degraded | St_pending
datatype incident_status = Is_open | Is_acknowledged | Is_resolved | Is_auto_corrected

text \<open>Casts of a text parameter to the enum types.\<close>

definition status_cast :: "string \<Rightarrow> overall_status option" where
  "status_cast t =
     (if t = ''matched'' then Some St_matched else if t = ''mismatch'' then Some St_mismatch
      else if t = ''degraded'' then Some St_degraded else if t = ''pending'' then Some St_pending
      else None)"

definition source_cast :: "string \<Rightarrow> source option" where
  "source_cast t =
     (if t = ''merchant'' then Some Merchant else if t = ''gateway'' then Some Gateway
      else if t = ''bank'' then Some Bank else None)"

definition kind_cast :: "string \<Rightarrow> incident_kind option" where
  "kind_cast t =
     (if t = ''amount_mismatch'' then Some AmountMismatch
      else if t = ''fee_mismatch'' then Some FeeMismatch
      else if t = ''currency_mismatch'' then Some CurrencyMismatch
      else if t = ''missing_source'' then Some MissingSource
      else if t = ''duplicate'' then Some Duplicate
      else if t = ''source_offline'' then Some SourceOffline
      else None)"

text \<open>
  \<open>VARCHAR(n)\<close> and \<open>CHAR(n)\<close> count characters, not bytes; a longer text is an error unless
  only blanks are cut off, and \<open>CHAR(n)\<close> pads with blanks.
\<close>

definition is_cont :: "char \<Rightarrow> bool" where
  "is_cont c \<longleftrightarrow> 128 \<le> (of_char c :: nat) \<and> (of_char c :: nat) < 192"

definition char_count :: "string \<Rightarrow> nat" where
  "char_count s = length (filter (\<lambda>c. \<not> is_cont c) s)"

fun split_chars :: "nat \<Rightarrow> string \<Rightarrow> string \<times> string" where
  "split_chars n [] = ([], [])"
| "split_chars n (c # cs) =
     (if is_cont c then (case split_chars n cs of (a, b) \<Rightarrow> (c # a, b))
      else case n of
             0 \<Rightarrow> ([], c # cs)
           | Suc m \<Rightarrow> (case split_chars m cs of (a, b) \<Rightarrow> (c # a, b)))"

definition varchar :: "nat \<Rightarrow> string \<Rightarrow> string option" where
  "varchar n s = (case split_chars n s of
       (a, b) \<Rightarrow> if list_all (\<lambda>c. c = CHR '' '') b then Some a else None)"

definition pg_char :: "nat \<Rightarrow> string \<Rightarrow> string option" where
  "pg_char n s = map_option (\<lambda>a. a @ replicate (n - char_count a) CHR '' '') (varchar n s)"

definition varchar_opt :: "nat \<Rightarrow> string option \<Rightarrow> string option option" where
  "varchar_opt n s = (case s of None \<Rightarrow> Some None | Some t \<Rightarrow> map_option Some (varchar n t))"

record transaction_row =
  tr_status :: overall_status
  tr_merchant_id :: "string option"
  tr_tx_type :: string
  tr_currency :: string
  tr_created_at :: int
  tr_updated_at :: int
  tr_processing_time_ms :: f64

record detail_row =
  dr_amount_expected :: "i64 option"
  dr_amount_actual :: "i64 option"
  dr_fee_expected :: "i64 option"
  dr_fee_actual :: "i64 option"
  dr_is_matched :: bool
  dr_mismatch_reason :: "string option"
  dr_received_at :: int

record incident_row =
  ir_transaction_id :: uuid
  ir_type :: incident_kind
  ir_severity :: i16
  ir_description :: string
  ir_status :: incident_status
  ir_created_at :: int
  ir_escalated_at :: "int option"

text \<open>The tables, the server's clock (\<open>NOW()\<close>) and the next value of the incident sequence.\<close>

record pg_tables =
  pg_now :: int
  transactions :: "uuid \<rightharpoonup> transaction_row"
  details :: "uuid \<times> source \<rightharpoonup> detail_row"
  incidents :: "i64 \<rightharpoonup> incident_row"
  next_incident :: int

section \<open>The statements\<close>

definition sql_upsert_transaction ::
  "uuid \<Rightarrow> string \<Rightarrow> string \<Rightarrow> string \<Rightarrow> string option \<Rightarrow> f64 \<Rightarrow> pg_tables \<Rightarrow> pg_tables option" where
  "sql_upsert_transaction tx status currency tx_type merchant_id ms T =
     (case (status_cast status, pg_char 3 currency, varchar 20 tx_type, varchar_opt 100 merchant_id) of
        (Some st, Some cur, Some ty, Some mid) \<Rightarrow>
          Some (T\<lparr>transactions := (transactions T)(tx \<mapsto>
            (case transactions T tx of
               None \<Rightarrow> \<lparr>tr_status = st, tr_merchant_id = mid, tr_tx_type = ty, tr_currency = cur,
                        tr_created_at = pg_now T, tr_updated_at = pg_now T,
                        tr_processing_time_ms = ms\<rparr>
             | Some row \<Rightarrow> row\<lparr>tr_status := st, tr_processing_time_ms := ms,
                               tr_updated_at := pg_now T\<rparr>))\<rparr>)
      | _ \<Rightarrow> None)"

definition sql_upsert_detail ::
  "uuid \<Rightarrow> string \<Rightarrow> i64 option \<Rightarrow> i64 option \<Rightarrow> i64 option \<Rightarrow> i64 option \<Rightarrow> bool \<Rightarrow> string option \<Rightarrow>
     pg_tables \<Rightarrow> pg_tables option" where
  "sql_upsert_detail tx src ae aa fe fa matched reason T =
     (case (source_cast src, varchar_opt 40 reason) of
        (Some s, Some r) \<Rightarrow>
          (if transactions T tx = None then None
           else Some (T\<lparr>details := (details T)((tx, s) \<mapsto>
              \<lparr>dr_amount_expected = ae, dr_amount_actual = aa, dr_fee_expected = fe,
               dr_fee_actual = fa, dr_is_matched = matched, dr_mismatch_reason = r,
               dr_received_at = pg_now T\<rparr>)\<rparr>))
      | _ \<Rightarrow> None)"

definition sql_insert_incident ::
  "uuid \<Rightarrow> string \<Rightarrow> i16 \<Rightarrow> string \<Rightarrow> pg_tables \<Rightarrow> (i64 \<times> pg_tables) option" where
  "sql_insert_incident tx kind sev descr T =
     (case kind_cast kind of
        Some k \<Rightarrow>
          (if transactions T tx = None \<or> 2 ^ 63 \<le> next_incident T then None
           else let i = word_of_int (next_incident T) in
             Some (i, T\<lparr>incidents := (incidents T)(i \<mapsto>
                \<lparr>ir_transaction_id = tx, ir_type = k, ir_severity = sev, ir_description = descr,
                 ir_status = Is_open, ir_created_at = pg_now T, ir_escalated_at = None\<rparr>),
                next_incident := next_incident T + 1\<rparr>))
      | None \<Rightarrow> None)"

definition sql_update_severity :: "i64 \<Rightarrow> i16 \<Rightarrow> pg_tables \<Rightarrow> u64 \<times> pg_tables" where
  "sql_update_severity i sev T =
     (case incidents T i of
        Some row \<Rightarrow>
          (if ir_status row = Is_open \<and> sint (ir_severity row) < sint sev then
             (1, T\<lparr>incidents := (incidents T)(i \<mapsto>
                    row\<lparr>ir_severity := sev, ir_escalated_at := Some (pg_now T)\<rparr>)\<rparr>)
           else (0, T))
      | None \<Rightarrow> (0, T))"

text \<open>Rows affected, and the integer of the single returned row.\<close>

fun sql_execute :: "pg_stmt \<Rightarrow> pg_tables \<Rightarrow> u64 \<Rightarrow> pg_tables \<Rightarrow> bool" where
  "sql_execute (Upsert_transaction tx st cur ty mid ms) T n T' \<longleftrightarrow>
     n = 1 \<and> sql_upsert_transaction tx st cur ty mid ms T = Some T'"
| "sql_execute (Upsert_detail tx src ae aa fe fa mt rs) T n T' \<longleftrightarrow>
     n = 1 \<and> sql_upsert_detail tx src ae aa fe fa mt rs T = Some T'"
| "sql_execute (Insert_incident tx k sev d) T n T' \<longleftrightarrow>
     n = 1 \<and> (\<exists>i. sql_insert_incident tx k sev d T = Some (i, T'))"
| "sql_execute (Update_severity i sev) T n T' \<longleftrightarrow> (n, T') = sql_update_severity i sev T"
| "sql_execute Select_one T n T' \<longleftrightarrow> n = 1 \<and> T' = T"

fun sql_fetch_one :: "pg_stmt \<Rightarrow> pg_tables \<Rightarrow> i64 \<Rightarrow> pg_tables \<Rightarrow> bool" where
  "sql_fetch_one (Insert_incident tx k sev d) T i T' \<longleftrightarrow>
     sql_insert_incident tx k sev d T = Some (i, T')"
| "sql_fetch_one Select_one T i T' \<longleftrightarrow> i = 1 \<and> T' = T"
| "sql_fetch_one _ T i T' \<longleftrightarrow> False"

section \<open>The methods of the store\<close>

definition upsert_transaction ::
  "('r, 'p) env \<Rightarrow> uuid \<Rightarrow> string \<Rightarrow> string \<Rightarrow> string \<Rightarrow> string option \<Rightarrow> f64 \<Rightarrow>
     ('r, 'p, reconciler_error, unit) io" where
  "upsert_transaction E tx status currency tx_type merchant_id ms =
     and_then (pcall (execute (pgs E) (Upsert_transaction tx status currency tx_type merchant_id ms)))
       (\<lambda>_. ok ())"

definition upsert_reconciliation_details ::
  "('r, 'p) env \<Rightarrow> uuid \<Rightarrow> reconciliation_detail list \<Rightarrow> ('r, 'p, reconciler_error, unit) io" where
  "upsert_reconciliation_details E tx ds =
     for_each ds (\<lambda>d.
       and_then (pcall (execute (pgs E)
         (Upsert_detail tx (source_name (rd_source d)) (amount_expected d) (amount_actual d)
            (fee_expected d) (fee_actual d) (is_matched d) (mismatch_reason d)))) (\<lambda>_. ok ()))"

definition create_incident ::
  "('r, 'p) env \<Rightarrow> incident \<Rightarrow> ('r, 'p, reconciler_error, i64) io" where
  "create_incident E i =
     pcall (fetch_one (pgs E)
       (Insert_incident (in_transaction_id i) (kind_name (incident_type i)) (severity i)
          (description i)))"

definition escalate_incident ::
  "('r, 'p) env \<Rightarrow> i64 \<Rightarrow> i16 \<Rightarrow> ('r, 'p, reconciler_error, bool) io" where
  "escalate_incident E incident_id new_severity =
     and_then (pcall (execute (pgs E) (Update_severity incident_id new_severity))) (\<lambda>rows.
       ok (0 < rows))"

section \<open>The server\<close>

text \<open>
  Between two calls of the matcher time passes, other sessions may take incident numbers, and
  operators may change the status of incidents.
\<close>

definition status_edit :: "incident_row \<Rightarrow> incident_row \<Rightarrow> bool" where
  "status_edit a b \<longleftrightarrow> (\<exists>st. b = a\<lparr>ir_status := st\<rparr>)"

definition plater :: "pg_tables \<Rightarrow> pg_tables \<Rightarrow> bool" where
  "plater T T' \<longleftrightarrow> pg_now T \<le> pg_now T' \<and> transactions T' = transactions T \<and> details T' = details T
     \<and> next_incident T \<le> next_incident T'
     \<and> (\<forall>i. rel_option status_edit (incidents T i) (incidents T' i))"

definition sequence_ok :: "pg_tables \<Rightarrow> bool" where
  "sequence_ok T \<longleftrightarrow> 0 < next_incident T
     \<and> (\<forall>i. incidents T i \<noteq> None \<longrightarrow> 0 < sint i \<and> sint i < next_incident T)"

locale pg_server =
  fixes E :: "('r, 'p) env" and tables :: "'p \<Rightarrow> pg_tables"
  assumes execute_law: "complies tables plater (execute (pgs E) st) (sql_execute st)"
    and fetch_one_law: "complies tables plater (fetch_one (pgs E) st) (sql_fetch_one st)"

section \<open>Lemmas\<close>

lemma status_cast_labels [simp]:
  "status_cast ''matched'' = Some St_matched" "status_cast ''mismatch'' = Some St_mismatch"
  "status_cast ''degraded'' = Some St_degraded" "status_cast ''pending'' = Some St_pending"
  by (simp_all add: status_cast_def)

lemma source_cast_name [simp]: "source_cast (source_name s) = Some s"
  by (cases s) (simp_all add: source_cast_def)

lemma kind_cast_name [simp]: "kind_cast (kind_name k) = Some k"
  by (cases k) (simp_all add: kind_cast_def)

lemma split_chars_append: "fst (split_chars n s) @ snd (split_chars n s) = s"
  by (induction n s rule: split_chars.induct) (auto split: nat.split prod.splits)

lemma split_chars_short: "char_count s \<le> n \<Longrightarrow> split_chars n s = (s, [])"
proof (induction n s rule: split_chars.induct)
  case (1 n)
  then show ?case by simp
next
  case (2 n c cs)
  then show ?case by (cases n) (auto simp: char_count_def split: if_splits)
qed

lemma varchar_short: "char_count s \<le> n \<Longrightarrow> varchar n s = Some s"
  by (simp add: varchar_def split_chars_short)

lemma run_pcall_Inr:
  "run (pcall f) s = (Inr x, s') \<longleftrightarrow> (\<exists>p. f (pg_st s) = (Inr x, p) \<and> s' = s\<lparr>pg_st := p\<rparr>)"
  by (cases "f (pg_st s)") (auto simp: run_simps map_sum_def split: sum.splits)

lemma status_edit_refl [simp]: "status_edit a a"
  unfolding status_edit_def by (rule exI[of _ "ir_status a"]) simp

lemma status_edit_trans: "status_edit a b \<Longrightarrow> status_edit b c \<Longrightarrow> status_edit a c"
  by (auto simp: status_edit_def)

lemma plater_refl [simp]: "plater T T"
  by (simp add: plater_def option.rel_refl)

section \<open>Properties\<close>

text \<open>C37. The texts the matcher binds for sources and incident kinds are exactly the labels of
  the schema's enum types: casting a display name gives the value back, and every label that casts
  is a display name.\<close>

theorem enum_labels_round_trip:
  "(source_cast t = Some s \<longleftrightarrow> t = source_name s) \<and> (kind_cast t = Some k \<longleftrightarrow> t = kind_name k)"
  by (cases s; cases k) (auto simp: source_cast_def kind_cast_def)

text \<open>Every mismatch reason that \<open>build_details\<close> produces fits the \<open>VARCHAR(40)\<close> column
  it is stored in, and is stored unchanged.\<close>

theorem reasons_fit_column:
  "list_all (\<lambda>d. varchar_opt 40 (mismatch_reason d) = Some (mismatch_reason d)) (build_details p)"
proof -
  have fits: "varchar_opt 40 (Some ''currency mismatch'') = Some (Some ''currency mismatch'')"
    "varchar_opt 40 (Some ''merchant amount mismatch'') = Some (Some ''merchant amount mismatch'')"
    "varchar_opt 40 (Some ''gateway consistency mismatch'') = Some (Some ''gateway consistency mismatch'')"
    "varchar_opt 40 (Some ''bank amount mismatch'') = Some (Some ''bank amount mismatch'')"
    "varchar_opt 40 None = Some None"
    by (simp_all add: varchar_opt_def varchar_def is_cont_def)
  show ?thesis
    by (cases "events p Merchant"; cases "events p Gateway"; cases "events p Bank")
      (simp_all add: build_details_def Let_def fits)
qed

end
