(* ===== verification/Matcher.thy ===== *)
theory Matcher imports Store_Redis Store_Pg Config
begin

text \<open>
  The matching engine, \<open>src/matcher/src/matcher.rs\<close>, with \<open>EventPublisher\<close> of
  \<open>src/matcher/src/publisher.rs\<close>. The engine's fields are the configuration \<open>cfg\<close>, the two
  stores and the publisher (reached through the environment \<open>E\<close>; the publisher's channel is the
  configured one, as \<open>main\<close> builds it) and the concurrent map of windows, which is part of the
  shared state. One definition per method, with every await, early return and \<open>?\<close> of the code;
  each access of the concurrent map is one atomic step. Logging is left out.
\<close>

section \<open>Publishing\<close>

definition publish_event ::
  "('r, 'p) env \<Rightarrow> string \<Rightarrow> pubsub_event \<Rightarrow> ('r, 'p, anyhow, unit) io" where
  "publish_event E channel ev =
     and_then (map_err Serde_json (lift_result (event_to_json E ev))) (\<lambda>json.
       map_err Reconciler (publish E channel json))"

abbreviation emit :: "('r, 'p) env \<Rightarrow> config \<Rightarrow> pubsub_event \<Rightarrow> ('r, 'p, anyhow, unit) io" where
  "emit E cfg ev \<equiv> publish_event E (redis_pubsub_channel cfg) ev"

text \<open>\<open>?\<close> on a store method: its error becomes an \<open>anyhow::Error\<close>.\<close>

abbreviation lift :: "('r, 'p, reconciler_error, 'a) io \<Rightarrow> ('r, 'p, anyhow, 'a) io" where
  "lift p \<equiv> map_err Reconciler p"

section \<open>The concurrent map of windows\<close>

definition windows_insert ::
  "uuid \<Rightarrow> partial_transaction \<Rightarrow> ('r, 'p, 'e, unit) io" where
  "windows_insert tx w = atomic (\<lambda>s. (Inr (), s\<lparr>windows := (windows s)(tx \<mapsto> w)\<rparr>))"

definition windows_remove :: "uuid \<Rightarrow> ('r, 'p, 'e, partial_transaction option) io" where
  "windows_remove tx = atomic (\<lambda>s. (Inr (windows s tx), s\<lparr>windows := (windows s)(tx := None)\<rparr>))"

definition windows_entry ::
  "uuid \<Rightarrow> partial_transaction \<Rightarrow> ('r, 'p, 'e, partial_transaction) io" where
  "windows_entry tx fresh = atomic (\<lambda>s.
     case windows s tx of
       Some w \<Rightarrow> (Inr w, s)
     | None \<Rightarrow> (Inr fresh, s\<lparr>windows := (windows s)(tx \<mapsto> fresh)\<rparr>))"

section \<open>Helpers of the engine\<close>

definition restore_from_redis ::
  "nat \<Rightarrow> ('r, 'p) env \<Rightarrow> ('r, 'p, anyhow, unit option) io" where
  "restore_from_redis fuel E =
     and_then (lift (load_all_windows fuel E 0 [])) (\<lambda>loaded.
       case loaded of
         None \<Rightarrow> ok None
       | Some ws \<Rightarrow>
           and_then (for_each ws (\<lambda>w. windows_insert (pt_transaction_id w) w)) (\<lambda>_. ok (Some ())))"

definition persist_incident ::
  "('r, 'p) env \<Rightarrow> config \<Rightarrow> incident \<Rightarrow> ('r, 'p, anyhow, unit) io" where
  "persist_incident E cfg i =
     and_then (lift (create_incident E i)) (\<lambda>ident.
     and_then (utc_now E) (\<lambda>now_ms.
     and_then (if severity i = 1
               then lift (add_escalation E ident (now_ms + reconciler_escalation_ms cfg))
               else ok ()) (\<lambda>_.
     emit E cfg (IncidentCreated ident (in_transaction_id i) (kind_name (incident_type i))
                   (severity i) (description i) now_ms))))"

definition cleanup_window :: "('r, 'p) env \<Rightarrow> uuid \<Rightarrow> ('r, 'p, anyhow, unit) io" where
  "cleanup_window E tx =
     and_then (windows_remove tx) (\<lambda>_.
     and_then (lift (delete_window E tx)) (\<lambda>_.
     and_then (lift (remove_deadline E tx)) (\<lambda>_.
     lift (cleanup_sources E tx))))"

text \<open>The \<open>f64\<close> literals \<open>0.0\<close> and \<open>1000.0\<close>.\<close>

definition f64_zero :: f64 where "f64_zero = 0"
definition f64_thousand :: f64 where "f64_thousand = 0x408F400000000000"

definition overall_status_of :: "reconciliation_result \<Rightarrow> string" where
  "overall_status_of r = (case r of Matched \<Rightarrow> ''matched'' | Mismatched _ \<Rightarrow> ''mismatch'')"

text \<open>The merchant's value, else that of the first event in the map's order, else a default.\<close>

definition merchant_or_first ::
  "('r, 'p) env \<Rightarrow> (payment_event \<Rightarrow> string) \<Rightarrow> string \<Rightarrow> event_map \<Rightarrow> string" where
  "merchant_or_first E field dflt es =
     (case es Merchant of
        Some e \<Rightarrow> field e
      | None \<Rightarrow> (case first_value (map_order E) es of Some e \<Rightarrow> field e | None \<Rightarrow> dflt))"

definition first_or_default ::
  "('r, 'p) env \<Rightarrow> (payment_event \<Rightarrow> string) \<Rightarrow> string \<Rightarrow> event_map \<Rightarrow> string" where
  "first_or_default E field dflt es =
     (case first_value (map_order E) es of Some e \<Rightarrow> field e | None \<Rightarrow> dflt)"

definition merchant_id_of :: "event_map \<Rightarrow> string option" where
  "merchant_id_of es = Option.bind (es Merchant) pe_merchant_id"

section \<open>Finalising a complete window\<close>

definition report_result ::
  "('r, 'p) env \<Rightarrow> config \<Rightarrow> uuid \<Rightarrow> i64 \<Rightarrow> reconciliation_result \<Rightarrow> ('r, 'p, anyhow, unit) io" where
  "report_result E cfg tx now_ms result =
     (case result of
        Matched \<Rightarrow>
          and_then (ignore (record_match_result E True)) (\<lambda>_.
          emit E cfg (TransactionMatched tx now_ms))
      | Mismatched incs \<Rightarrow>
          and_then (ignore (record_match_result E False)) (\<lambda>_.
          for_each incs (persist_incident E cfg)))"

definition finalize_window ::
  "('r, 'p) env \<Rightarrow> config \<Rightarrow> partial_transaction \<Rightarrow> ('r, 'p, anyhow, unit) io" where
  "finalize_window E cfg window =
     and_then (utc_now E) (\<lambda>now_ms.
       let tx = pt_transaction_id window;
           currency = merchant_or_first E pe_currency ''UZS'' (events window);
           tx_type = merchant_or_first E pe_tx_type ''card'' (events window);
           merchant_id = merchant_id_of (events window);
           result = check_invariants window;
           ds = build_details window
       in
       and_then (elapsed E) (\<lambda>micros.
       let total = processing_time_micros window + micros;
           ms = f64_div E (f64_of_i64 E total) f64_thousand
       in
       and_then (lift (upsert_transaction E tx (overall_status_of result) currency tx_type
                         merchant_id ms)) (\<lambda>_.
       and_then (lift (upsert_reconciliation_details E tx ds)) (\<lambda>_.
       and_then (report_result E cfg tx now_ms result) (\<lambda>_.
       cleanup_window E tx)))))"

section \<open>Events\<close>

text \<open>"The source ... sent a second event for the transaction ...".\<close>

definition txt_source :: string where
  "txt_source = utf8 [1048, 1089, 1090, 1086, 1095, 1085, 1080, 1082, 32]"
definition txt_second_event :: string where
  "txt_second_event = utf8 [32, 1087, 1088, 1080, 1089, 1083, 1072, 1083, 32, 1074, 1090, 1086, 1088, 1086, 1077, 32, 1089, 1086, 1073, 1099, 1090, 1080, 1077, 32, 1076, 1083, 1103, 32, 1090, 1088, 1072, 1085, 1079, 1072, 1082, 1094, 1080, 1080, 32]"

definition duplicate_incident :: "('r, 'p) env \<Rightarrow> uuid \<Rightarrow> source \<Rightarrow> incident" where
  "duplicate_incident E tx src =
     \<lparr>in_transaction_id = tx, incident_type = Duplicate, severity = 1,
      description = txt_source @ source_name src @ txt_second_event @ uuid_str E tx\<rparr>"

text \<open>A second event of a source for a transaction whose sources are still registered.\<close>

definition handle_duplicate ::
  "('r, 'p) env \<Rightarrow> config \<Rightarrow> payment_event \<Rightarrow> ('r, 'p, anyhow, unit) io" where
  "handle_duplicate E cfg event =
     (let tx = pe_transaction_id event in
      and_then (lift (upsert_transaction E tx ''pending'' (pe_currency event) (pe_tx_type event)
                        (pe_merchant_id event) f64_zero)) (\<lambda>_.
      and_then (persist_incident E cfg (duplicate_incident E tx (pe_source event))) (\<lambda>_.
      and_then (elapsed E) (\<lambda>latency_micros.
      ignore (record_event_processed E (source_name (pe_source event))
                latency_micros latency_micros)))))"

text \<open>
  The rest of \<open>handle_event\<close> for a source's first event: put it into the window, then
  finalise the window or save the progress. The result is the logic time to record.
\<close>

definition settle_window ::
  "('r, 'p) env \<Rightarrow> config \<Rightarrow> uuid \<Rightarrow> i64 \<Rightarrow> partial_transaction \<Rightarrow> ('r, 'p, anyhow, i64) io" where
  "settle_window E cfg tx now_ms window =
     (if is_complete window (expected_sources_count cfg) then
        and_then (elapsed E) (\<lambda>micros.
        let total = processing_time_micros window + micros in
        and_then (finalize_window E cfg (window\<lparr>processing_time_micros := total\<rparr>)) (\<lambda>_.
        ok total))
      else
        and_then (emit E cfg (TransactionProgress tx (sources_seen (map_order E) window) now_ms)) (\<lambda>_.
        and_then (elapsed E) (\<lambda>micros.
        let window' = window\<lparr>processing_time_micros := processing_time_micros window + micros\<rparr> in
        and_then (windows_insert tx window') (\<lambda>_.
        and_then (lift (save_window E window')) (\<lambda>_.
        ok (processing_time_micros window'))))))"

definition add_to_window ::
  "('r, 'p) env \<Rightarrow> config \<Rightarrow> payment_event \<Rightarrow> i64 \<Rightarrow> ('r, 'p, anyhow, unit) io" where
  "add_to_window E cfg event now_ms =
     (let tx = pe_transaction_id event in
      and_then (windows_entry tx (new_partial tx now_ms (reconciler_timeout_ms cfg))) (\<lambda>found.
      let is_first_event = (events_len (events found) = 0);
          window = found\<lparr>events := (events found)(pe_source event \<mapsto> event)\<rparr>
      in
      and_then (if is_first_event then
                  and_then (lift (add_deadline E tx (deadline_ms window))) (\<lambda>_.
                  emit E cfg (TransactionReceived tx (pe_source event) now_ms))
                else ok ()) (\<lambda>_.
      and_then (windows_insert tx window) (\<lambda>_.
      and_then (lift (save_window E window)) (\<lambda>_.
      and_then (settle_window E cfg tx now_ms window) (\<lambda>logic_micros.
      and_then (elapsed E) (\<lambda>total_micros.
      ignore (record_event_processed E (source_name (pe_source event))
                total_micros logic_micros))))))))"

text \<open>What \<open>handle_event\<close> does with an event it has claimed.\<close>

definition claimed_event ::
  "('r, 'p) env \<Rightarrow> config \<Rightarrow> payment_event \<Rightarrow> ('r, 'p, anyhow, unit) io" where
  "claimed_event E cfg event =
     and_then (utc_now E) (\<lambda>now_ms.
     and_then (lift (try_register_source E (pe_transaction_id event) (pe_source event)))
       (\<lambda>first_time_source.
     if \<not> first_time_source then handle_duplicate E cfg event
     else add_to_window E cfg event now_ms))"

definition handle_event ::
  "('r, 'p) env \<Rightarrow> config \<Rightarrow> stream_message \<Rightarrow> ('r, 'p, anyhow, unit) io" where
  "handle_event E cfg msg =
     (let event = sm_event msg in
      and_then (lift (try_claim_event E (event_id event) (reconciler_dedup_window_ms cfg))) (\<lambda>is_new.
      if \<not> is_new then ok () else claimed_event E cfg event))"

section \<open>Timeouts and escalations\<close>

text \<open>"No events received from the sources: ... (window ... ms)".\<close>

definition txt_missing :: string where
  "txt_missing = utf8 [1053, 1077, 32, 1087, 1086, 1083, 1091, 1095, 1077, 1085, 1099, 32, 1089, 1086, 1073, 1099, 1090, 1080, 1103, 32, 1086, 1090, 32, 1080, 1089, 1090, 1086, 1095, 1085, 1080, 1082, 1086, 1074, 58, 32]"
definition txt_window :: string where
  "txt_window = utf8 [32, 40, 1086, 1082, 1085, 1086, 32]"
definition txt_ms :: string where
  "txt_ms = utf8 [32, 1084, 1089, 41]"

definition missing_incident :: "config \<Rightarrow> uuid \<Rightarrow> source list \<Rightarrow> incident" where
  "missing_incident cfg tx missing =
     \<lparr>in_transaction_id = tx, incident_type = MissingSource, severity = 1,
      description = txt_missing @ join_str '', '' (map source_name missing) @ txt_window
        @ show_nat (unat (reconciler_timeout_ms cfg)) @ txt_ms\<rparr>"

definition degrade_window ::
  "('r, 'p) env \<Rightarrow> config \<Rightarrow> uuid \<Rightarrow> partial_transaction \<Rightarrow> ('r, 'p, anyhow, unit) io" where
  "degrade_window E cfg tx window =
     (let missing = missing_sources window;
          currency = first_or_default E pe_currency ''UZS'' (events window);
          tx_type = first_or_default E pe_tx_type ''card'' (events window);
          merchant_id = merchant_id_of (events window)
      in
      and_then (lift (upsert_transaction E tx ''degraded'' currency tx_type merchant_id f64_zero)) (\<lambda>_.
      and_then (lift (upsert_reconciliation_details E tx (build_details window))) (\<lambda>_.
      and_then (persist_incident E cfg (missing_incident cfg tx missing)) (\<lambda>_.
      cleanup_window E tx))))"

definition handle_timeout ::
  "('r, 'p) env \<Rightarrow> config \<Rightarrow> uuid \<Rightarrow> ('r, 'p, anyhow, unit) io" where
  "handle_timeout E cfg tx =
     and_then (windows_remove tx) (\<lambda>removed.
       case removed of
         None \<Rightarrow> ok ()
       | Some window \<Rightarrow>
           if is_complete window (expected_sources_count cfg) then finalize_window E cfg window
           else degrade_window E cfg tx window)"

text \<open>
  The two periodic passes: first the due keys are popped, then one task per key is spawned into a
  set of at most 50. \<open>process_expired_windows\<close> and \<open>process_expired_escalations\<close> run each
  spawned task to its end before the next one, which is one of the executions of the set;
  \<open>joinset 50\<close> over the same tasks is all of them.
\<close>

definition expired_windows :: "('r, 'p) env \<Rightarrow> ('r, 'p, anyhow, uuid list) io" where
  "expired_windows E =
     and_then (utc_now E) (\<lambda>now_ms. lift (pop_expired_deadlines E now_ms))"

definition timeout_task :: "('r, 'p) env \<Rightarrow> config \<Rightarrow> uuid \<Rightarrow> ('r, 'p, anyhow, unit) io" where
  "timeout_task E cfg tx = ignore (handle_timeout E cfg tx)"

definition process_expired_windows :: "('r, 'p) env \<Rightarrow> config \<Rightarrow> ('r, 'p, anyhow, unit) io" where
  "process_expired_windows E cfg =
     and_then (expired_windows E) (\<lambda>expired_ids.
       if expired_ids = [] then ok () else for_each expired_ids (timeout_task E cfg))"

definition expired_escalations :: "('r, 'p) env \<Rightarrow> ('r, 'p, anyhow, i64 list) io" where
  "expired_escalations E =
     and_then (utc_now E) (\<lambda>now_ms. lift (pop_expired_escalations E now_ms))"

definition escalation_task :: "('r, 'p) env \<Rightarrow> config \<Rightarrow> i64 \<Rightarrow> ('r, 'p, anyhow, unit) io" where
  "escalation_task E cfg incident_id =
     and_then (attempt (escalate_incident E incident_id 2)) (\<lambda>res.
       case res of
         Inl _ \<Rightarrow> ok ()
       | Inr escalated \<Rightarrow>
           if escalated then
             and_then (utc_now E) (\<lambda>ts_ms.
             ignore (emit E cfg (IncidentUpdated incident_id None 2 ts_ms)))
           else ok ())"

definition process_expired_escalations :: "('r, 'p) env \<Rightarrow> config \<Rightarrow> ('r, 'p, anyhow, unit) io" where
  "process_expired_escalations E cfg =
     and_then (expired_escalations E) (\<lambda>expired_incidents.
       if expired_incidents = [] then ok ()
       else for_each expired_incidents (escalation_task E cfg))"

definition active_windows_count :: "('r, 'p) world \<Rightarrow> nat" where
  "active_windows_count s = card (dom (windows s))"

end
