(* ===== verification/Utf8_Text.thy ===== *)
theory Utf8_Text imports Prelude
begin

text \<open>
  The operations of Rust's standard library that the matcher applies to received bytes:
  \<open>String::from_utf8_lossy\<close> (a maximal ill-formed prefix becomes U+FFFD),
  \<open>str::lines\<close> (its first line) and \<open>str::split_whitespace\<close>, on UTF-8 byte strings.
\<close>

abbreviation byte :: "char \<Rightarrow> nat" where
  "byte c \<equiv> of_char c"

definition cont :: "nat \<Rightarrow> bool" where
  "cont b \<longleftrightarrow> 128 \<le> b \<and> b < 192"

text \<open>The bytes that may follow a given first byte of a three- or four-byte sequence.\<close>

definition second_ok :: "nat \<Rightarrow> nat \<Rightarrow> bool" where
  "second_ok a b \<longleftrightarrow>
     (if a = 224 then 160 \<le> b \<and> b < 192 else if a = 237 then 128 \<le> b \<and> b < 160
      else if a = 240 then 144 \<le> b \<and> b < 192 else if a = 244 then 128 \<le> b \<and> b < 144
      else cont b)"

text \<open>Whether byte \<open>i\<close> of the text is there and satisfies a test.\<close>

definition at_byte :: "string \<Rightarrow> nat \<Rightarrow> (nat \<Rightarrow> bool) \<Rightarrow> bool" where
  "at_byte s i P \<longleftrightarrow> i < length s \<and> P (byte (s ! i))"

text \<open>Is the first sequence of a non-empty text well formed, and how many bytes is it?\<close>

definition first_sequence :: "string \<Rightarrow> bool \<times> nat" where
  "first_sequence s =
     (let a = byte (hd s) in
      if a < 128 then (True, 1)
      else if 194 \<le> a \<and> a < 224 then
        (if at_byte s 1 cont then (True, 2) else (False, 1))
      else if 224 \<le> a \<and> a < 240 then
        (if \<not> at_byte s 1 (second_ok a) then (False, 1)
         else if \<not> at_byte s 2 cont then (False, 2)
         else (True, 3))
      else if 240 \<le> a \<and> a < 245 then
        (if \<not> at_byte s 1 (second_ok a) then (False, 1)
         else if \<not> at_byte s 2 cont then (False, 2)
         else if \<not> at_byte s 3 cont then (False, 3)
         else (True, 4))
      else (False, 1))"

definition replacement :: string where
  "replacement = [char_of (239 :: nat), char_of (191 :: nat), char_of (189 :: nat)]"

lemma first_sequence_positive: "0 < snd (first_sequence s)"
  by (simp add: first_sequence_def Let_def)

lemma first_sequence_progress: "(good, n) = first_sequence s \<Longrightarrow> 0 < n"
  using first_sequence_positive[of s] by (metis snd_conv)

function from_utf8_lossy :: "string \<Rightarrow> string" where
  "from_utf8_lossy s =
     (if s = [] then []
      else case first_sequence s of
             (good, n) \<Rightarrow> (if good then take n s else replacement) @ from_utf8_lossy (drop n s))"
  by pat_completeness auto
termination
  by (relation "measure length") (auto dest: first_sequence_progress)

declare from_utf8_lossy.simps [simp del]

text \<open>The first line, without its line break (\<open>None\<close> for the empty text).\<close>

definition first_line :: "string \<Rightarrow> string option" where
  "first_line s =
     (if s = [] then None
      else let l = takeWhile (\<lambda>c. c \<noteq> CHR 0x0A) s in
        Some (if l \<noteq> [] \<and> last l = CHR 0x0D \<and> length l < length s then butlast l else l))"

text \<open>The byte length of the white-space character a text starts with, 0 if there is none.\<close>

definition whitespace_len :: "string \<Rightarrow> nat" where
  "whitespace_len s =
     (case map byte (take 3 s) of
        [] \<Rightarrow> 0
      | a # r \<Rightarrow>
          if (9 \<le> a \<and> a \<le> 13) \<or> a = 32 then 1
          else case r of
            [] \<Rightarrow> 0
          | b # r' \<Rightarrow>
              if a = 194 \<and> (b = 133 \<or> b = 160) then 2
              else case r' of
                [] \<Rightarrow> 0
              | c # _ \<Rightarrow>
                  if (a = 225 \<and> b = 154 \<and> c = 128)
                     \<or> (a = 226 \<and> b = 128 \<and> ((128 \<le> c \<and> c \<le> 138) \<or> c = 168 \<or> c = 169 \<or> c = 175))
                     \<or> (a = 226 \<and> b = 129 \<and> c = 159)
                     \<or> (a = 227 \<and> b = 128 \<and> c = 128)
                  then 3 else 0)"

definition word_list :: "string \<Rightarrow> string list" where
  "word_list cur = (if cur = [] then [] else [cur])"

function split_ws :: "string \<Rightarrow> string \<Rightarrow> string list" where
  "split_ws s cur =
     (if s = [] then word_list cur
      else if whitespace_len s = 0 then split_ws (tl s) (cur @ [hd s])
      else word_list cur @ split_ws (drop (whitespace_len s) s) [])"
  by pat_completeness auto
termination
  by (relation "measure (\<lambda>(s, _). length s)") auto

declare split_ws.simps [simp del]

definition split_whitespace :: "string \<Rightarrow> string list" where
  "split_whitespace s = split_ws s []"

definition nth_opt :: "'a list \<Rightarrow> nat \<Rightarrow> 'a option" where
  "nth_opt xs i = (if i < length xs then Some (xs ! i) else None)"

section \<open>Lemmas\<close>

definition ascii :: "string \<Rightarrow> bool" where
  "ascii s \<longleftrightarrow> list_all (\<lambda>c. byte c < 128) s"

lemma from_utf8_lossy_ascii: "ascii s \<Longrightarrow> from_utf8_lossy s = s"
proof (induction s)
  case Nil
  then show ?case by (simp add: from_utf8_lossy.simps)
next
  case (Cons c s)
  then have "first_sequence (c # s) = (True, 1)"
    by (simp add: first_sequence_def ascii_def)
  with Cons show ?case
    by (subst from_utf8_lossy.simps) (simp add: ascii_def)
qed

lemma whitespace_len_plain:
  "33 \<le> byte c \<Longrightarrow> byte c < 128 \<Longrightarrow> whitespace_len (c # s) = 0"
  by (cases s; cases "tl s") (auto simp: whitespace_len_def)

lemma split_ws_plain:
  "list_all (\<lambda>c. 33 \<le> byte c \<and> byte c < 128) w \<Longrightarrow> split_ws (w @ s) cur = split_ws s (cur @ w)"
proof (induction w arbitrary: cur)
  case Nil
  then show ?case by simp
next
  case (Cons c w)
  then have "whitespace_len (c # w @ s) = 0" by (simp add: whitespace_len_plain)
  with Cons show ?case
    by (subst append_Cons, subst split_ws.simps) simp
qed

lemma split_ws_blank: "split_ws (CHR '' '' # s) cur = word_list cur @ split_ws s []"
  by (subst split_ws.simps) (simp add: whitespace_len_def)

end
