(* ===== verification/Stream_Task.thy ===== *)
theory Stream_Task imports Matcher Utf8_Text
begin

text \<open>
  The stream consumer, \<open>src/matcher/src/stream.rs\<close>: one round of its endless loop reads up to
  ten entries, handles each, and acknowledges the ones that are done with. The loop is modelled by
  its first \<open>n\<close> rounds, for any \<open>n\<close>.
\<close>

definition ack_message ::
  "('r, 'p) env \<Rightarrow> string \<Rightarrow> string \<Rightarrow> string \<Rightarrow> ('r, 'p, anyhow, unit) io" where
  "ack_message E stream grp ident =
     and_then (map_err (\<lambda>e. Context ''xack failed'' (Redis_crate e))
                 (redis_call (xack (rds E) stream grp [ident]))) (\<lambda>_. ok ())"

definition ack :: "('r, 'p) env \<Rightarrow> config \<Rightarrow> stream_entry \<Rightarrow> ('r, 'p, anyhow, unit) io" where
  "ack E cfg entry =
     ignore (ack_message E (redis_stream_name cfg) (redis_consumer_group cfg) (entry_id entry))"

definition entry_message :: "('r, 'p) env \<Rightarrow> stream_entry \<Rightarrow> stream_message option" where
  "entry_message E entry =
     (case entry_map entry ''payload'' of
        Some (Data bytes) \<Rightarrow>
          (case message_from_json E (from_utf8_lossy bytes) of Inl _ \<Rightarrow> None | Inr msg \<Rightarrow> Some msg)
      | _ \<Rightarrow> None)"

definition process_entry ::
  "('r, 'p) env \<Rightarrow> config \<Rightarrow> stream_entry \<Rightarrow> ('r, 'p, anyhow, unit) io" where
  "process_entry E cfg entry =
     (case entry_message E entry of
        None \<Rightarrow> ack E cfg entry
      | Some msg \<Rightarrow>
          and_then (attempt (handle_event E cfg msg)) (\<lambda>r.
            case r of
              Inr _ \<Rightarrow> ack E cfg entry
            | Inl _ \<Rightarrow> ok ()))"

definition stream_round :: "('r, 'p) env \<Rightarrow> config \<Rightarrow> ('r, 'p, anyhow, unit) io" where
  "stream_round E cfg =
     and_then (attempt (redis_call (xreadgroup (rds E) (redis_stream_name cfg)
                 (redis_consumer_group cfg) (redis_consumer_name cfg) 10 1000))) (\<lambda>reply.
       case reply of
         Inl _ \<Rightarrow> ok ()
       | Inr keys \<Rightarrow> for_each (concat (map snd keys)) (process_entry E cfg))"

definition stream_run :: "nat \<Rightarrow> ('r, 'p) env \<Rightarrow> config \<Rightarrow> ('r, 'p, anyhow, unit) io" where
  "stream_run n E cfg = for_each [0..<n] (\<lambda>_. stream_round E cfg)"

end
