(* ===== verification/Timer_Task.thy ===== *)
theory Timer_Task imports Matcher
begin

text \<open>
  The timer worker, \<open>src/matcher/src/timer.rs\<close>: one tick runs the two periodic passes of
  the engine and ignores their errors (they are logged); the endless loop is modelled by its first
  \<open>n\<close> ticks, for any \<open>n\<close>. Sleeping is left out.
\<close>

definition timer_tick :: "('r, 'p) env \<Rightarrow> config \<Rightarrow> ('r, 'p, anyhow, unit) io" where
  "timer_tick E cfg =
     and_then (ignore (process_expired_windows E cfg)) (\<lambda>_.
     ignore (process_expired_escalations E cfg))"

definition timer_run :: "nat \<Rightarrow> ('r, 'p) env \<Rightarrow> config \<Rightarrow> ('r, 'p, anyhow, unit) io" where
  "timer_run n E cfg = for_each [0..<n] (\<lambda>_. timer_tick E cfg)"

end
