(* ===== verification/Health.thy ===== *)
theory Health imports Utf8_Text Services
begin

text \<open>
  The health endpoint of \<open>src/matcher/src/main.rs\<close> (\<open>run_health_endpoint\<close>): what one
  accepted connection is answered. The socket is the caller's: the argument is what
  \<open>read\<close> returned (\<open>None\<close> for an error, else the bytes, at most 1024), the result is the
  response written, if any.
\<close>

definition status_ok :: string where
  "status_ok = ''HTTP/1.1 200 OK''"
definition status_unavailable :: string where
  "status_unavailable = ''HTTP/1.1 503 Service Unavailable''"
definition status_not_found :: string where
  "status_not_found = ''HTTP/1.1 404 Not Found''"

definition body_ok :: string where
  "body_ok = ''{'' @ [CHR 0x22] @ ''status'' @ [CHR 0x22] @ '':'' @ [CHR 0x22] @ ''ok'' @ [CHR 0x22] @ ''}''"
definition body_ready :: string where
  "body_ready = ''{'' @ [CHR 0x22] @ ''status'' @ [CHR 0x22] @ '':'' @ [CHR 0x22] @ ''ready'' @ [CHR 0x22] @ ''}''"
definition body_unready :: string where
  "body_unready = ''{'' @ [CHR 0x22] @ ''status'' @ [CHR 0x22] @ '':'' @ [CHR 0x22] @ ''unready'' @ [CHR 0x22] @ ''}''"
definition body_not_found :: string where
  "body_not_found = ''{'' @ [CHR 0x22] @ ''error'' @ [CHR 0x22] @ '':'' @ [CHR 0x22] @ ''not_found'' @ [CHR 0x22] @ ''}''"

definition request_path :: "string \<Rightarrow> string" where
  "request_path bytes =
     (case Option.bind (first_line (from_utf8_lossy bytes)) (\<lambda>l. nth_opt (split_whitespace l) 1) of
        None \<Rightarrow> ''/''
      | Some path \<Rightarrow> path)"

definition crlf :: string where
  "crlf = [CHR 0x0D, CHR 0x0A]"

definition http_response :: "string \<Rightarrow> string \<Rightarrow> string" where
  "http_response status_line body =
     status_line @ crlf @ ''Content-Type: application/json'' @ crlf
     @ ''Content-Length: '' @ show_nat (length body) @ crlf @ crlf @ body"

definition is_ok :: "'e + 'a \<Rightarrow> bool" where
  "is_ok r = (case r of Inl _ \<Rightarrow> False | Inr _ \<Rightarrow> True)"

definition health_answer :: "('r, 'p) env \<Rightarrow> string \<Rightarrow> ('r, 'p, 'e, string \<times> string) io" where
  "health_answer E path =
     (if path = ''/healthz'' then ok (status_ok, body_ok)
      else if path = ''/readyz'' then
        and_then (attempt (pg_call (fetch_one (pgs E) Select_one))) (\<lambda>pg.
        and_then (attempt (redis_call (ping (rds E)))) (\<lambda>redis.
        if is_ok pg \<and> is_ok redis then ok (status_ok, body_ready)
        else ok (status_unavailable, body_unready)))
      else ok (status_not_found, body_not_found))"

definition health_connection ::
  "('r, 'p) env \<Rightarrow> string option \<Rightarrow> ('r, 'p, 'e, string option) io" where
  "health_connection E read =
     (case read of
        Some bytes \<Rightarrow>
          if bytes = [] then ok None
          else and_then (health_answer E (request_path bytes)) (\<lambda>(status_line, body).
                 ok (Some (http_response status_line body)))
      | None \<Rightarrow> ok None)"

text \<open>
  The endpoint: it binds \<open>HEALTH_ADDR\<close> or the default address and spawns a connection task for what
  each \<open>accept\<close> returned, until one returns an error, which ends it. \<open>accepts\<close> are the results so far; the
  result is what the connections read and the endpoint's own outcome, \<open>None\<close> while it listens.
\<close>

fun accept_loop :: "(string + 'c) list \<Rightarrow> 'c list \<times> string option" where
  "accept_loop [] = ([], None)"
| "accept_loop (Inl e # _) = ([], Some e)"
| "accept_loop (Inr c # rest) = (case accept_loop rest of (cs, out) \<Rightarrow> (c # cs, out))"

definition run_health_endpoint ::
  "string option \<Rightarrow> (string \<Rightarrow> string + unit) \<Rightarrow> (string + 'c) list \<Rightarrow> 'c list \<times> string option" where
  "run_health_endpoint health_addr bind accepts =
     (let addr = (case health_addr of Some a \<Rightarrow> a | None \<Rightarrow> ''0.0.0.0:8081'')
      in case bind addr of Inl e \<Rightarrow> ([], Some e) | Inr _ \<Rightarrow> accept_loop accepts)"

lemma accept_loop_outcome: "snd (accept_loop accepts) = None \<longleftrightarrow> (\<forall>e. Inl e \<notin> set accepts)"
  by (induction accepts rule: accept_loop.induct) (auto split: prod.splits)

lemma accept_loop_spawned: "map Inr (fst (accept_loop accepts)) = takeWhile is_ok accepts"
  by (induction accepts rule: accept_loop.induct) (auto simp: is_ok_def split: prod.splits)

section \<open>Requests and answers\<close>

lemma takeWhile_append_all: "list_all P xs \<Longrightarrow> takeWhile P (xs @ ys) = xs @ takeWhile P ys"
  by (induction xs) auto

text \<open>A request line \<open>METHOD path VERSION\<close> of printable ASCII, however the request goes on,
  is routed by its path.\<close>

theorem request_path_parses:
  assumes "list_all (\<lambda>c. 33 \<le> byte c \<and> byte c < 127) (m @ path)" and "m \<noteq> []" and "path \<noteq> []"
    and "ascii rest"
  shows "request_path (m @ '' '' @ path @ '' HTTP/1.1'' @ crlf @ rest) = path"
proof -
  let ?line = "m @ '' '' @ path @ '' HTTP/1.1''"
  have plain: "list_all (\<lambda>c. 33 \<le> byte c \<and> byte c < 128) m"
    "list_all (\<lambda>c. 33 \<le> byte c \<and> byte c < 128) path"
    using assms(1) by (auto simp: list_all_iff intro: less_trans)
  have "ascii (?line @ crlf @ rest)"
    using plain assms(4) by (auto simp: ascii_def list_all_iff crlf_def)
  then have lossy: "from_utf8_lossy (?line @ crlf @ rest) = ?line @ crlf @ rest"
    by (rule from_utf8_lossy_ascii)
  have no_lf: "list_all (\<lambda>c. c \<noteq> CHR 0x0A) (?line @ [CHR 0x0D])"
    using plain by (auto simp: list_all_iff)
  have take: "takeWhile (\<lambda>c. c \<noteq> CHR 0x0A) (?line @ crlf @ rest)
      = ?line @ [CHR 0x0D]"
    using takeWhile_append_all[OF no_lf, of "CHR 0x0A # rest"] by (simp add: crlf_def)
  have line: "first_line (?line @ crlf @ rest) = Some ?line"
    unfolding first_line_def Let_def take by (simp add: crlf_def butlast_append)
  have "split_whitespace ?line = word_list m @ word_list path @ split_ws ''HTTP/1.1'' []"
    unfolding split_whitespace_def
    by (simp add: split_ws_plain[OF plain(1)] split_ws_blank split_ws_plain[OF plain(2)])
  then have "nth_opt (split_whitespace ?line) 1 = Some path"
    using assms(2,3) by (simp add: word_list_def nth_opt_def)
  with lossy line show ?thesis by (simp add: request_path_def)
qed

theorem request_path_parses_witness:
  "request_path (''GET'' @ '' '' @ ''/readyz'' @ '' HTTP/1.1'' @ crlf @ []) = ''/readyz''"
  by (rule request_path_parses) (simp_all add: ascii_def)

text \<open>What one connection is answered: an empty or failed read is not answered; otherwise liveness is always 200,
  readiness is 200 exactly when both services answered and 503 otherwise, and any other path is
  404. The declared content length is that of the body.\<close>

theorem health_connection_answers:
  "fst (run (health_connection E read) s) =
     Inr (case read of
            None \<Rightarrow> None
          | Some bytes \<Rightarrow>
              if bytes = [] then None
              else if request_path bytes = ''/healthz'' then Some (http_response status_ok body_ok)
              else if request_path bytes = ''/readyz'' then
                (if is_ok (fst (fetch_one (pgs E) Select_one (pg_st s)))
                    \<and> is_ok (fst (ping (rds E) (redis_st s)))
                 then Some (http_response status_ok body_ready)
                 else Some (http_response status_unavailable body_unready))
              else Some (http_response status_not_found body_not_found))"
  by (auto simp: health_connection_def health_answer_def run_simps split: option.split prod.split)

end
