(* ===== verification/Startup.thy ===== *)
theory Startup imports Stream_Task Timer_Task Health
begin

text \<open>
  The start-up sequence of \<open>main\<close> in \<open>src/matcher/src/main.rs\<close>: configuration,
  Postgres, migrations, Redis, consumer group, an engine without windows, restored windows; the first
  failure ends the program with its context. Connecting a pool, migrating, and opening a client and its
  connection manager are calls of the libraries, hence arguments.
\<close>

text \<open>\<open>connect\<close> of \<open>PostgresStore\<close>: at most 25 connections, 5 seconds to acquire one; and of \<open>RedisStore\<close>.\<close>

definition connect_postgres ::
  "(nat \<Rightarrow> nat \<Rightarrow> string \<Rightarrow> ('p, unit) call) \<Rightarrow> string \<Rightarrow> ('r, 'p, reconciler_error, unit) io" where
  "connect_postgres pool url = pcall (pool 25 5 url)"

definition connect_redis ::
  "(string \<Rightarrow> redis_error + 'c) \<Rightarrow> ('c \<Rightarrow> ('r, unit) call) \<Rightarrow> string \<Rightarrow> ('r, 'p, reconciler_error, unit) io" where
  "connect_redis open_client manager url =
     and_then (map_err Redis (lift_result (open_client url))) (\<lambda>client. rcall (manager client))"

text \<open>\<open>MatchingEngine::new\<close>: a process starts with no window, over the services as they are.\<close>

definition new_engine :: "('r, 'p, 'e, unit) io" where
  "new_engine = atomic (\<lambda>s. (Inr (), s\<lparr>windows := Map.empty\<rparr>))"

definition startup ::
  "nat \<Rightarrow> ('r, 'p) env \<Rightarrow> string + config \<Rightarrow> (nat \<Rightarrow> nat \<Rightarrow> string \<Rightarrow> ('p, unit) call) \<Rightarrow> ('p, unit) call \<Rightarrow>
     (string \<Rightarrow> redis_error + 'c) \<Rightarrow> ('c \<Rightarrow> ('r, unit) call) \<Rightarrow> ('r, 'p, anyhow, config option) io" where
  "startup fuel E loaded pool migrate open_client manager =
     and_then (map_err (\<lambda>e. Context ''failed to load config'' (Other e)) (lift_result loaded)) (\<lambda>cfg.
     and_then (map_err (\<lambda>e. Context ''postgres connect'' (Reconciler e))
                 (connect_postgres pool (postgres_url cfg))) (\<lambda>_.
     and_then (map_err (\<lambda>e. Context ''failed to run migrations'' (Other e)) (pg_call migrate)) (\<lambda>_.
     and_then (map_err (\<lambda>e. Context ''redis connect'' (Reconciler e))
                 (connect_redis open_client manager (redis_url cfg))) (\<lambda>_.
     and_then (map_err (\<lambda>e. Context ''ensure consumer group'' (Reconciler e))
                 (ensure_consumer_group E (redis_stream_name cfg) (redis_consumer_group cfg))) (\<lambda>_.
     and_then new_engine (\<lambda>_.
     and_then (map_err (Context ''restore state from redis'') (restore_from_redis fuel E)) (\<lambda>done.
     ok (map_option (\<lambda>_. cfg) done))))))))"

end
