(* ===== verification/Memory_Services.thy ===== *)
theory Memory_Services imports Store_Redis Store_Pg Config "HOL-Library.AList"
begin

text \<open>
  An in-memory implementation of both services, complete for the commands and statements of the
  stores: strings, sets, sorted sets and lists with expiry times, a stream with one reader, and
  the tables of the schema. It shows that the laws of \<open>redis_server\<close> and \<open>pg_server\<close> can be
  met, and it is the environment on which the engine is evaluated. Time on this server stands still
  between two calls; uuids are written in decimal.
\<close>

section \<open>Redis\<close>

datatype cell =
    CStr string
  | CSet "string list"
  | CZset "(string \<times> int) list"
  | CList "string list"

record mem_redis =
  m_clock :: int
  m_cells :: "(string \<times> cell \<times> int option) list"
  m_sent :: "(string \<times> string) list"
  m_groups :: "(string \<times> string) list"
  m_new :: "(string \<times> stream_entry list) list"
  m_pending :: "string list"

fun rval_of :: "cell \<Rightarrow> rval" where
  "rval_of (CStr s) = RStr s"
| "rval_of (CSet xs) = RSet (set xs)"
| "rval_of (CZset z) = RZset (map_of z)"
| "rval_of (CList l) = RList l"

definition alive :: "int \<Rightarrow> (cell \<times> int option) option \<Rightarrow> (cell \<times> int option) option" where
  "alive c e = (case e of Some (v, Some t) \<Rightarrow> if c < t then e else None | _ \<Rightarrow> e)"

definition mem_lookup :: "string \<Rightarrow> mem_redis \<Rightarrow> (cell \<times> int option) option" where
  "mem_lookup k r = alive (m_clock r) (map_of (m_cells r) k)"

definition mem_put :: "string \<Rightarrow> (cell \<times> int option) option \<Rightarrow> mem_redis \<Rightarrow> mem_redis" where
  "mem_put k e r = r\<lparr>m_cells :=
     (case e of None \<Rightarrow> AList.delete k (m_cells r) | Some x \<Rightarrow> AList.update k x (m_cells r))\<rparr>"

definition cell_view :: "(cell \<times> int option) option \<Rightarrow> (rval \<times> int option) option" where
  "cell_view = map_option (map_prod rval_of id)"

definition mem_view :: "mem_redis \<Rightarrow> rview" where
  "mem_view r = \<lparr>clock = m_clock r, cells = (\<lambda>k. cell_view (mem_lookup k r)), sent = m_sent r\<rparr>"

definition wrong_type :: string where "wrong_type = ''WRONGTYPE''"

definition mem_set :: "string \<Rightarrow> string \<Rightarrow> int \<Rightarrow> mem_redis \<Rightarrow> mem_redis" where
  "mem_set k v ms r = mem_put k (Some (CStr v, Some (m_clock r + ms))) r"

definition mem_set_nx_px :: "string \<Rightarrow> string \<Rightarrow> u64 \<Rightarrow> (mem_redis, string option) call" where
  "mem_set_nx_px k v ttl r =
     (if ttl = 0 then (Inl ''ERR invalid expire time'', r)
      else case mem_lookup k r of
             None \<Rightarrow> (Inr (Some ''OK''), mem_set k v (uint ttl) r)
           | Some _ \<Rightarrow> (Inr None, r))"

definition mem_set_px :: "string \<Rightarrow> string \<Rightarrow> u64 \<Rightarrow> (mem_redis, unit) call" where
  "mem_set_px k v ttl r =
     (if ttl = 0 then (Inl ''ERR invalid expire time'', r) else (Inr (), mem_set k v (uint ttl) r))"

definition mem_setex :: "string \<Rightarrow> i64 \<Rightarrow> string \<Rightarrow> (mem_redis, unit) call" where
  "mem_setex k secs v r =
     (if sint secs \<le> 0 then (Inl ''ERR invalid expire time'', r)
      else (Inr (), mem_set k v (1000 * sint secs) r))"

definition mem_get :: "string \<Rightarrow> (mem_redis, string option) call" where
  "mem_get k r =
     (case mem_lookup k r of
        None \<Rightarrow> (Inr None, r)
      | Some (CStr s, _) \<Rightarrow> (Inr (Some s), r)
      | _ \<Rightarrow> (Inl wrong_type, r))"

definition mem_get_i64 :: "string \<Rightarrow> (mem_redis, i64) call" where
  "mem_get_i64 k r =
     (case mem_lookup k r of
        Some (CStr s, _) \<Rightarrow>
          (case parse_i64 s of Some i \<Rightarrow> (Inr i, r) | None \<Rightarrow> (Inl ''not an integer'', r))
      | _ \<Rightarrow> (Inl ''not an integer'', r))"

definition mem_del :: "string \<Rightarrow> (mem_redis, unit) call" where
  "mem_del k r = (Inr (), mem_put k None r)"

definition mem_expire :: "string \<Rightarrow> i64 \<Rightarrow> (mem_redis, unit) call" where
  "mem_expire k secs r =
     (Inr (), case mem_lookup k r of
        None \<Rightarrow> r
      | Some (v, _) \<Rightarrow>
          mem_put k (if 0 < sint secs then Some (v, Some (m_clock r + 1000 * sint secs)) else None) r)"

definition mem_incr :: "string \<Rightarrow> i64 \<Rightarrow> (mem_redis, unit) call" where
  "mem_incr k d r =
     (case mem_lookup k r of
        None \<Rightarrow> (Inr (), mem_put k (Some (CStr (show_i64 d), None)) r)
      | Some (CStr s, t) \<Rightarrow>
          (case parse_i64 s of
             None \<Rightarrow> (Inl ''ERR value is not an integer or out of range'', r)
           | Some i \<Rightarrow>
               (if - (2 ^ 63) \<le> sint i + sint d \<and> sint i + sint d < 2 ^ 63
                then (Inr (), mem_put k (Some (CStr (show_i64 (i + d)), t)) r)
                else (Inl ''ERR increment or decrement would overflow'', r)))
      | _ \<Rightarrow> (Inl wrong_type, r))"

definition glob :: "string \<Rightarrow> string \<Rightarrow> bool" where
  "glob pat k = (if pat \<noteq> [] \<and> last pat = CHR ''*'' then starts_with (butlast pat) k else k = pat)"

definition mem_scan :: "u64 \<Rightarrow> string \<Rightarrow> nat \<Rightarrow> (mem_redis, u64 \<times> string list) call" where
  "mem_scan cur pat n r =
     (Inr (0, filter (\<lambda>k. mem_lookup k r \<noteq> None \<and> glob pat k) (remdups (map fst (m_cells r)))), r)"

definition mem_zadd :: "string \<Rightarrow> string \<Rightarrow> i64 \<Rightarrow> (mem_redis, unit) call" where
  "mem_zadd k m score r =
     (case mem_lookup k r of
        None \<Rightarrow> (Inr (), mem_put k (Some (CZset [(m, sint score)], None)) r)
      | Some (CZset z, t) \<Rightarrow> (Inr (), mem_put k (Some (CZset (AList.update m (sint score) z), t)) r)
      | _ \<Rightarrow> (Inl wrong_type, r))"

definition mem_zrange :: "string \<Rightarrow> i64 \<Rightarrow> (mem_redis, string list) call" where
  "mem_zrange k limit r =
     (case mem_lookup k r of
        None \<Rightarrow> (Inr [], r)
      | Some (CZset z, t) \<Rightarrow>
          (Inr (sort_key (\<lambda>m. the (map_of z m))
             (filter (\<lambda>m. the (map_of z m) \<le> sint limit) (remdups (map fst z)))), r)
      | _ \<Rightarrow> (Inl wrong_type, r))"

definition mem_zrange_i64 :: "string \<Rightarrow> i64 \<Rightarrow> (mem_redis, i64 list) call" where
  "mem_zrange_i64 k limit r =
     (case mem_zrange k limit r of
        (Inl e, r') \<Rightarrow> (Inl e, r')
      | (Inr ms, r') \<Rightarrow>
          (case those (map parse_i64 ms) of
             None \<Rightarrow> (Inl ''not an integer'', r')
           | Some is \<Rightarrow> (Inr is, r')))"

definition mem_zrem :: "string \<Rightarrow> string \<Rightarrow> (mem_redis, i64) call" where
  "mem_zrem k m r =
     (case mem_lookup k r of
        None \<Rightarrow> (Inr 0, r)
      | Some (CZset z, t) \<Rightarrow>
          (Inr (if map_of z m = None then 0 else 1),
           mem_put k (if AList.delete m z = [] then None else Some (CZset (AList.delete m z), t)) r)
      | _ \<Rightarrow> (Inl wrong_type, r))"

definition mem_sadd :: "string \<Rightarrow> string \<Rightarrow> (mem_redis, i64) call" where
  "mem_sadd k m r =
     (case mem_lookup k r of
        None \<Rightarrow> (Inr 1, mem_put k (Some (CSet [m], None)) r)
      | Some (CSet xs, t) \<Rightarrow>
          (Inr (if List.member xs m then 0 else 1), mem_put k (Some (CSet (List.insert m xs), t)) r)
      | _ \<Rightarrow> (Inl wrong_type, r))"

definition mem_publish :: "string \<Rightarrow> string \<Rightarrow> (mem_redis, i64) call" where
  "mem_publish ch m r = (Inr 1, r\<lparr>m_sent := m_sent r @ [(ch, m)]\<rparr>)"

definition mem_lpush :: "string \<Rightarrow> i64 \<Rightarrow> (mem_redis, unit) call" where
  "mem_lpush k i r =
     (case mem_lookup k r of
        None \<Rightarrow> (Inr (), mem_put k (Some (CList [show_i64 i], None)) r)
      | Some (CList l, t) \<Rightarrow> (Inr (), mem_put k (Some (CList (show_i64 i # l), t)) r)
      | _ \<Rightarrow> (Inl wrong_type, r))"

definition mem_slice :: "i64 \<Rightarrow> i64 \<Rightarrow> string list \<Rightarrow> string list" where
  "mem_slice start stop l =
     (let n = int (length l);
          a = (if sint start < 0 then max 0 (n + sint start) else sint start);
          b = (if sint stop < 0 then n + sint stop else sint stop)
      in take (nat (b - a + 1)) (drop (nat a) l))"

definition mem_ltrim :: "string \<Rightarrow> i64 \<Rightarrow> i64 \<Rightarrow> (mem_redis, unit) call" where
  "mem_ltrim k start stop r =
     (case mem_lookup k r of
        None \<Rightarrow> (Inr (), r)
      | Some (CList l, t) \<Rightarrow>
          (Inr (), mem_put k (case mem_slice start stop l of
                                [] \<Rightarrow> None | l' \<Rightarrow> Some (CList l', t)) r)
      | _ \<Rightarrow> (Inl wrong_type, r))"

definition mem_lrange :: "string \<Rightarrow> i64 \<Rightarrow> i64 \<Rightarrow> (mem_redis, string list) call" where
  "mem_lrange k start stop r =
     (case mem_lookup k r of
        None \<Rightarrow> (Inr [], r)
      | Some (CList l, t) \<Rightarrow> (Inr (mem_slice start stop l), r)
      | _ \<Rightarrow> (Inl wrong_type, r))"

definition mem_xgroup_create :: "string \<Rightarrow> string \<Rightarrow> string \<Rightarrow> (mem_redis, string) call" where
  "mem_xgroup_create stream grp start r =
     (if List.member (m_groups r) (stream, grp)
      then (Inl ''BUSYGROUP: Consumer Group name already exists'', r)
      else (Inr ''OK'', r\<lparr>m_groups := (stream, grp) # m_groups r\<rparr>))"

definition mem_xreadgroup ::
  "string \<Rightarrow> string \<Rightarrow> string \<Rightarrow> nat \<Rightarrow> nat \<Rightarrow> (mem_redis, stream_reply) call" where
  "mem_xreadgroup stream grp consumer n block r =
     (if \<not> List.member (m_groups r) (stream, grp) then (Inl ''NOGROUP'', r)
      else case map_of (m_new r) stream of
             None \<Rightarrow> (Inr [], r)
           | Some entries \<Rightarrow>
               (Inr [(stream, take n entries)],
                r\<lparr>m_new := AList.update stream (drop n entries) (m_new r),
                  m_pending := m_pending r @ map entry_id (take n entries)\<rparr>))"

definition mem_xack :: "string \<Rightarrow> string \<Rightarrow> string list \<Rightarrow> (mem_redis, i64) call" where
  "mem_xack stream grp ids r =
     (Inr (of_nat (length (filter (List.member (m_pending r)) ids))),
      r\<lparr>m_pending := filter (\<lambda>i. \<not> List.member ids i) (m_pending r)\<rparr>)"

definition mem_ping :: "(mem_redis, string) call" where
  "mem_ping r = (Inr ''PONG'', r)"

definition mem_rds :: "mem_redis redis_api" where
  "mem_rds =
     \<lparr>set_nx_px = mem_set_nx_px, set_px = mem_set_px, setex = mem_setex, get_str = mem_get,
      get_i64 = mem_get_i64, del = mem_del, expire = mem_expire, incr = mem_incr, scan = mem_scan,
      zadd = mem_zadd, zrangebyscore = mem_zrange, zrem = mem_zrem,
      zadd_i64 = (\<lambda>k i. mem_zadd k (show_i64 i)), zrangebyscore_i64 = mem_zrange_i64,
      zrem_i64 = (\<lambda>k i. mem_zrem k (show_i64 i)), sadd = mem_sadd, publish_cmd = mem_publish,
      lpush = mem_lpush, ltrim = mem_ltrim, lrange = mem_lrange,
      xgroup_create = mem_xgroup_create, xreadgroup = mem_xreadgroup, xack = mem_xack,
      ping = mem_ping\<rparr>"

section \<open>Postgres\<close>

fun mem_execute :: "pg_stmt \<Rightarrow> (pg_tables, u64) call" where
  "mem_execute (Upsert_transaction tx st cur ty mid ms) T =
     (case sql_upsert_transaction tx st cur ty mid ms T of
        None \<Rightarrow> (Inl ''rejected'', T) | Some T' \<Rightarrow> (Inr 1, T'))"
| "mem_execute (Upsert_detail tx src ae aa fe fa mt rs) T =
     (case sql_upsert_detail tx src ae aa fe fa mt rs T of
        None \<Rightarrow> (Inl ''rejected'', T) | Some T' \<Rightarrow> (Inr 1, T'))"
| "mem_execute (Insert_incident tx k sev d) T =
     (case sql_insert_incident tx k sev d T of
        None \<Rightarrow> (Inl ''rejected'', T) | Some (i, T') \<Rightarrow> (Inr 1, T'))"
| "mem_execute (Update_severity i sev) T =
     (case sql_update_severity i sev T of (n, T') \<Rightarrow> (Inr n, T'))"
| "mem_execute Select_one T = (Inr 1, T)"

fun mem_fetch_one :: "pg_stmt \<Rightarrow> (pg_tables, i64) call" where
  "mem_fetch_one (Insert_incident tx k sev d) T =
     (case sql_insert_incident tx k sev d T of
        None \<Rightarrow> (Inl ''rejected'', T) | Some (i, T') \<Rightarrow> (Inr i, T'))"
| "mem_fetch_one Select_one T = (Inr 1, T)"
| "mem_fetch_one _ T = (Inl ''no rows returned'', T)"

definition mem_pgs :: "pg_tables pg_api" where
  "mem_pgs = \<lparr>execute = mem_execute, fetch_one = mem_fetch_one\<rparr>"

section \<open>The environment\<close>

text \<open>
  A saved window is written as the names of its sources; a clock reading is the number of readings
  before it, counted from 1000, so that time moves on by a millisecond per reading.
\<close>

definition mem_env :: "(mem_redis, pg_tables) env" where
  "mem_env =
     \<lparr>rds = mem_rds, pgs = mem_pgs,
      uuid_str = (\<lambda>u. show_nat (unat u)), uuid_parse = (\<lambda>s. map_option of_nat (parse_nat s)),
      window_to_json = (\<lambda>w. Inr (show_nat (unat (pt_transaction_id w)))),
      window_from_json = (\<lambda>s. Inl s),
      event_to_json = (\<lambda>ev. Inr (case ev of
          TransactionReceived tx src ts \<Rightarrow> ''received''
        | TransactionProgress tx ss ts \<Rightarrow> ''progress''
        | TransactionMatched tx ts \<Rightarrow> ''matched''
        | IncidentCreated i tx k sv d ts \<Rightarrow> ''incident''
        | IncidentUpdated i k sv ts \<Rightarrow> ''updated''
        | SourceStatusChanged src on ts \<Rightarrow> ''status'')),
      message_from_json = (\<lambda>s. Inl s),
      map_order = (\<lambda>m. filter (\<lambda>s. m s \<noteq> None) source_all),
      utc_millis = (\<lambda>n. 1000 + of_nat n), utc_rfc3339 = (\<lambda>n. show_nat n),
      elapsed_micros = (\<lambda>n. n),
      f64_of_i64 = (\<lambda>i. i), f64_div = (\<lambda>x y. x), f64_mul = (\<lambda>x y. x), i32_of_f64 = ucast\<rparr>"

definition mem_start :: "(mem_redis, pg_tables) world" where
  "mem_start =
     \<lparr>redis_st = \<lparr>m_clock = 0, m_cells = [], m_sent = [], m_groups = [], m_new = [], m_pending = []\<rparr>,
      pg_st = \<lparr>pg_now = 0, transactions = Map.empty, details = Map.empty, incidents = Map.empty,
              next_incident = 1\<rparr>,
      windows = Map.empty, reads = 10\<rparr>"

text \<open>The default configuration, and one event per source of transaction 7.\<close>

definition mem_cfg :: config where
  "mem_cfg = default_config ''a''"

definition mem_message :: "uuid \<Rightarrow> source \<Rightarrow> i64 \<Rightarrow> i64 \<Rightarrow> stream_message" where
  "mem_message ident src amount fee =
     \<lparr>sm_event = (sample_event src amount fee)\<lparr>event_id := ident\<rparr>, internal_event_id = ident,
      correlation_id = None, ingested_at_ms = 0\<rparr>"

section \<open>It keeps to the documentation\<close>

lemma alive_None [simp]: "alive c None = None"
  by (simp add: alive_def)

lemma alive_lasting [simp]: "alive c (Some (v, None)) = Some (v, None)"
  by (simp add: alive_def)

lemma alive_later [simp]: "alive c (Some (v, Some t)) = (if c < t then Some (v, Some t) else None)"
  by (simp add: alive_def)

lemma mem_lookup_put:
  "mem_lookup k' (mem_put k e r) = (if k' = k then alive (m_clock r) e else mem_lookup k' r)"
  by (cases e) (simp_all add: mem_lookup_def mem_put_def AList.update_conv' delete_conv')

lemma mem_lookup_alive: "alive (m_clock r) (mem_lookup k r) = mem_lookup k r"
  by (simp add: mem_lookup_def alive_def split: option.splits prod.splits)

lemma mem_lookup_alive_Some:
  "mem_lookup k r = Some (v, t) \<Longrightarrow> alive (m_clock r) (Some (w, t)) = Some (w, t)"
  using mem_lookup_alive[of r k] by (cases t) (auto split: if_splits)

lemma cell_view_simps [simp]:
  "cell_view None = None" "cell_view (Some (v, t)) = Some (rval_of v, t)"
  "cell_view e = None \<longleftrightarrow> e = None"
  by (simp_all add: cell_view_def)

lemma mem_view_simps [simp]:
  "clock (mem_view r) = m_clock r" "cells (mem_view r) k = cell_view (mem_lookup k r)"
  "sent (mem_view r) = m_sent r"
  by (simp_all add: mem_view_def)

lemma m_clock_put [simp]: "m_clock (mem_put k e r) = m_clock r"
  by (simp add: mem_put_def)

lemma m_sent_put [simp]: "m_sent (mem_put k e r) = m_sent r"
  by (simp add: mem_put_def)

lemma mem_view_put: "mem_view (mem_put k e r) = put_cell k (cell_view (alive (m_clock r) e)) (mem_view r)"
  by (simp add: mem_view_def put_cell_def mem_lookup_put fun_eq_iff)

text \<open>Time can stand still.\<close>

lemma mem_rlater: "rlater (mem_view r) (mem_view r)"
proof -
  have "unexpired (m_clock r) (cell_view (mem_lookup k r)) = cell_view (mem_lookup k r)" for k
    by (cases "map_of (m_cells r) k") (auto simp: mem_lookup_def alive_def unexpired_def split: option.splits if_splits)
  then have "mem_view r = wait_until (m_clock r) (mem_view r)"
    by (simp add: wait_until_def mem_view_def fun_eq_iff)
  then show ?thesis unfolding rlater_def by (metis mem_view_simps(1) order_refl)
qed

lemma mem_complies:
  assumes "\<And>r x r'. f r = (Inr x, r') \<Longrightarrow> R (mem_view r) x (mem_view r')"
    and "\<And>r e r'. f r = (Inl e, r') \<Longrightarrow> r' = r"
  shows "complies mem_view rlater f R"
  unfolding complies_def
proof
  fix r
  have "case f r of (Inr x, r') \<Rightarrow> R (mem_view r) x (mem_view r')
      | (Inl e, r') \<Rightarrow> mem_view r' = mem_view r \<or> (\<exists>x. R (mem_view r) x (mem_view r'))"
  proof (cases "f r")
    case (Pair y r')
    with assms[of r] show ?thesis by (cases y) simp_all
  qed
  then show "\<exists>V. rlater (mem_view r) V \<and> (case f r of (Inr x, r') \<Rightarrow> R V x (mem_view r')
      | (Inl e, r') \<Rightarrow> mem_view r' = V \<or> (\<exists>x. R V x (mem_view r')))"
    by (intro exI conjI) (rule mem_rlater)
qed

text \<open>Case analysis on the cell a command finds.\<close>

lemmas mem_splits = if_splits option.splits prod.splits cell.splits list.splits

lemma map_of_delete_empty: "(map_of z)(m := None) = Map.empty \<longleftrightarrow> AList.delete m z = []"
  by (simp add: delete_conv'[symmetric])

lemma mem_set_laws:
  "complies mem_view rlater (mem_set_nx_px k v ttl) (sp_set_nx_px k v ttl)"
  "complies mem_view rlater (mem_set_px k v ttl) (sp_set_px k v ttl)"
  "complies mem_view rlater (mem_setex k secs v) (sp_setex k secs v)"
proof -
  have pos: "0 < uint ttl" if "ttl \<noteq> 0" for ttl :: u64
    using that by (metis uint_0_iff uint_ge_0 order_less_le)
  show "complies mem_view rlater (mem_set_nx_px k v ttl) (sp_set_nx_px k v ttl)"
    by (rule mem_complies)
      (auto simp: mem_set_nx_px_def sp_set_nx_px_def mem_set_def mem_view_put pos word_gt_0 split: mem_splits)
  show "complies mem_view rlater (mem_set_px k v ttl) (sp_set_px k v ttl)"
    by (rule mem_complies)
      (auto simp: mem_set_px_def sp_set_px_def mem_set_def mem_view_put pos word_gt_0 split: mem_splits)
  show "complies mem_view rlater (mem_setex k secs v) (sp_setex k secs v)"
    by (rule mem_complies)
      (auto simp: mem_setex_def sp_setex_def mem_set_def mem_view_put split: mem_splits)
qed

lemma mem_read_laws:
  "complies mem_view rlater (mem_get k) (sp_get k)"
  "complies mem_view rlater (mem_get_i64 k) (sp_get_i64 k)"
  "complies mem_view rlater (mem_scan cur ''window:*'' n) (sp_scan (starts_with ''window:''))"
  by (rule mem_complies;
      auto simp: mem_get_def sp_get_def mem_get_i64_def sp_get_i64_def mem_scan_def sp_scan_def
        glob_def split: mem_splits)+

lemma mem_cell_laws:
  "complies mem_view rlater (mem_del k) (sp_del k)"
  "complies mem_view rlater (mem_expire k secs) (sp_expire k secs)"
  "complies mem_view rlater (mem_incr k d) (sp_incr k d)"
  "complies mem_view rlater (mem_sadd k m) (sp_sadd k m)"
  "complies mem_view rlater (mem_lpush k micros) (sp_lpush k micros)"
  by (rule mem_complies;
      auto simp: mem_del_def sp_del_def mem_expire_def sp_expire_def mem_incr_def sp_incr_def
        mem_sadd_def sp_sadd_def mem_lpush_def sp_lpush_def mem_view_put
        mem_lookup_alive_Some insert_absorb split: mem_splits)+

lemma mem_publish_law: "complies mem_view rlater (mem_publish ch m) (sp_publish ch m)"
  by (rule mem_complies)
    (auto simp: mem_publish_def sp_publish_def mem_view_def mem_lookup_def)

lemma mem_zset_laws:
  "complies mem_view rlater (mem_zadd k m score) (sp_zadd k m (sint score))"
  "complies mem_view rlater (mem_zrem k m) (sp_zrem k m)"
  by (rule mem_complies;
      auto simp: mem_zadd_def sp_zadd_def mem_zrem_def sp_zrem_def mem_view_put
        mem_lookup_alive_Some AList.update_conv' delete_conv' map_of_delete_empty split: mem_splits)+

lemma zrange_keys:
  "set (sort_key h (filter (\<lambda>m. the (map_of z m) \<le> limit) (remdups (map fst z))))
     = {m. \<exists>i. map_of z m = Some i \<and> i \<le> limit}"
  by (auto simp: map_of_eq_None_iff[symmetric] simp del: map_of_eq_None_iff)
    (metis map_of_eq_None_iff not_None_eq image_eqI option.sel fst_conv)+

lemma mem_zrange_law:
  "complies mem_view rlater (mem_zrange k score) (sp_zrangebyscore k (sint score))"
  by (rule mem_complies)
    (auto simp: mem_zrange_def sp_zrangebyscore_def zrange_keys simp del: set_sort split: mem_splits)

lemma those_Some: "those xs = Some ys \<longleftrightarrow> xs = map Some ys"
  by (induction xs arbitrary: ys) (auto split: option.splits)

lemma mem_zrange_i64_law:
  "complies mem_view rlater (mem_zrange_i64 k score)
     (\<lambda>V x V'. \<exists>ms. sp_zrangebyscore k (sint score) V ms V' \<and> map parse_i64 ms = map Some x)"
proof (rule mem_complies)
  fix r x r'
  assume "mem_zrange_i64 k score r = (Inr x, r')"
  then obtain ms where ms: "mem_zrange k score r = (Inr ms, r')" "map parse_i64 ms = map Some x"
    by (auto simp: mem_zrange_i64_def those_Some split: prod.splits sum.splits option.splits)
  moreover have "sp_zrangebyscore k (sint score) (mem_view r) ms (mem_view r')"
    using ms(1) by (auto simp: mem_zrange_def sp_zrangebyscore_def zrange_keys simp del: set_sort split: mem_splits)
  ultimately show "\<exists>ms. sp_zrangebyscore k (sint score) (mem_view r) ms (mem_view r')
      \<and> map parse_i64 ms = map Some x" by (intro exI conjI)
next
  fix r e r'
  assume "mem_zrange_i64 k score r = (Inl e, r')"
  then show "r' = r"
    by (auto simp: mem_zrange_i64_def mem_zrange_def split: mem_splits sum.splits)
qed

lemma mem_slice_head: "mem_slice 0 stop l = take (ltrim_length stop l) l"
  by (simp add: mem_slice_def ltrim_length_def Let_def add.commute add.left_commute not_less)

lemma mem_ltrim_law: "complies mem_view rlater (mem_ltrim k 0 stop) (sp_ltrim k stop)"
proof (rule mem_complies)
  fix r x r'
  assume "mem_ltrim k 0 stop r = (Inr x, r')"
  then show "sp_ltrim k stop (mem_view r) x (mem_view r')"
    unfolding mem_ltrim_def mem_slice_head sp_ltrim_def
    by (auto simp: mem_view_put mem_lookup_alive_Some split: mem_splits)
next
  fix r e r'
  assume "mem_ltrim k 0 stop r = (Inl e, r')"
  then show "r' = r" by (auto simp: mem_ltrim_def split: mem_splits)
qed

lemma mem_view_stream:
  "mem_view (r\<lparr>m_new := x\<rparr>) = mem_view r"
  "mem_view (r\<lparr>m_new := x, m_pending := y\<rparr>) = mem_view r"
  "mem_view (r\<lparr>m_pending := y\<rparr>) = mem_view r"
  by (simp_all add: mem_view_def mem_lookup_def)

lemma mem_stream_laws:
  "complies mem_view rlater (mem_xreadgroup k v ch n bl) sp_stream"
  "complies mem_view rlater (mem_xack k v ids) sp_stream"
  by (rule mem_complies;
      auto simp: mem_xreadgroup_def mem_xack_def sp_stream_def mem_view_stream split: mem_splits)+

lemma mem_env_simps [simp]:
  "rds mem_env = mem_rds" "pgs mem_env = mem_pgs"
  "execute mem_pgs = mem_execute" "fetch_one mem_pgs = mem_fetch_one"
  by (simp_all add: mem_env_def mem_pgs_def)

lemma mem_env_eval:
  "uuid_str mem_env u = show_nat (unat u)"
  "uuid_parse mem_env t = map_option of_nat (parse_nat t)"
  "window_to_json mem_env w = Inr (show_nat (unat (pt_transaction_id w)))"
  "event_to_json mem_env (TransactionReceived tx src ts) = Inr ''received''"
  "event_to_json mem_env (TransactionProgress tx ss ts) = Inr ''progress''"
  "event_to_json mem_env (TransactionMatched tx ts) = Inr ''matched''"
  "event_to_json mem_env (IncidentCreated i tx k sv d ts) = Inr ''incident''"
  "event_to_json mem_env (IncidentUpdated i k2 sv ts) = Inr ''updated''"
  "map_order mem_env m = filter (\<lambda>s. m s \<noteq> None) source_all"
  "utc_millis mem_env n = 1000 + of_nat n" "utc_rfc3339 mem_env n = show_nat n"
  "elapsed_micros mem_env n = n"
  "f64_of_i64 mem_env i = i" "f64_div mem_env x y = x"
  by (simp_all add: mem_env_def)

lemma mem_rds_simps [simp]:
  "set_nx_px mem_rds = mem_set_nx_px" "set_px mem_rds = mem_set_px" "setex mem_rds = mem_setex"
  "get_str mem_rds = mem_get" "get_i64 mem_rds = mem_get_i64" "del mem_rds = mem_del"
  "expire mem_rds = mem_expire" "incr mem_rds = mem_incr" "scan mem_rds = mem_scan"
  "zadd mem_rds = mem_zadd" "zrangebyscore mem_rds = mem_zrange" "zrem mem_rds = mem_zrem"
  "zadd_i64 mem_rds k i = mem_zadd k (show_i64 i)" "zrangebyscore_i64 mem_rds = mem_zrange_i64"
  "zrem_i64 mem_rds k i = mem_zrem k (show_i64 i)" "sadd mem_rds = mem_sadd"
  "publish_cmd mem_rds = mem_publish" "lpush mem_rds = mem_lpush" "ltrim mem_rds = mem_ltrim"
  "lrange mem_rds = mem_lrange" "xgroup_create mem_rds = mem_xgroup_create"
  "xreadgroup mem_rds = mem_xreadgroup" "xack mem_rds = mem_xack" "ping mem_rds = mem_ping"
  by (simp_all add: mem_rds_def)

lemma mem_uuid_round_trip: "uuid_parse mem_env (uuid_str mem_env u) = Some u"
  by (simp add: mem_env_def parse_show_nat)

lemma mem_server:
  "rds E = mem_rds \<Longrightarrow> (\<And>u. uuid_parse E (uuid_str E u) = Some u) \<Longrightarrow> redis_server E mem_view (\<lambda>i. i)"
  by unfold_locales
    (simp_all add: mem_set_laws mem_read_laws mem_cell_laws mem_publish_law
      mem_zset_laws mem_zrange_law mem_zrange_i64_law mem_ltrim_law mem_stream_laws)

interpretation mem: redis_server mem_env mem_view "\<lambda>i. i"
  by (rule mem_server) (simp_all add: mem_uuid_round_trip)

lemma mem_pg_complies:
  assumes "\<And>T x T'. f T = (Inr x, T') \<Longrightarrow> R T x T'" and "\<And>T e T'. f T = (Inl e, T') \<Longrightarrow> T' = T"
  shows "complies (\<lambda>T. T) plater f R"
  unfolding complies_def
proof
  fix T
  have "case f T of (Inr x, T') \<Rightarrow> R T x T' | (Inl e, T') \<Rightarrow> T' = T \<or> (\<exists>x. R T x T')"
  proof (cases "f T")
    case (Pair y T')
    with assms[of T] show ?thesis by (cases y) simp_all
  qed
  then show "\<exists>V. plater T V \<and> (case f T of (Inr x, T') \<Rightarrow> R V x T'
      | (Inl e, T') \<Rightarrow> T' = V \<or> (\<exists>x. R V x T'))"
    by (intro exI conjI) (rule plater_refl)
qed

interpretation mem: pg_server mem_env "\<lambda>T. T"
proof unfold_locales
  show "complies (\<lambda>T. T) plater (execute (pgs mem_env) st) (sql_execute st)" for st
    by (rule mem_pg_complies; cases st; auto simp: mem_pgs_def split: option.splits prod.splits)
  show "complies (\<lambda>T. T) plater (fetch_one (pgs mem_env) st) (sql_fetch_one st)" for st
    by (rule mem_pg_complies; cases st; auto simp: mem_pgs_def split: option.splits prod.splits)
qed

end
