(* ===== verification/Supervisor.thy ===== *)
theory Supervisor imports Startup Memory_Services
begin

text \<open>
  The rest of \<open>main\<close> (\<open>src/matcher/src/main.rs\<close>): the two workers and the health endpoint are spawned
  and \<open>main\<close> returns \<open>Ok\<close> as soon as one of them is over or the process is interrupted.
\<close>

text \<open>
  A spawned worker logs the error its loop ended with and is over. The loops have no other exit, so the
  result of a worker's first rounds tells: an error has ended it, after anything else it goes on. A panic
  would end a spawned task too; panics are not modelled, here or in the tasks.
\<close>

definition worker_over :: "anyhow + unit \<Rightarrow> bool" where
  "worker_over rounds = (case rounds of Inl _ \<Rightarrow> True | Inr _ \<Rightarrow> False)"

text \<open>\<open>tokio::select!\<close> over the interrupt and the three tasks: \<open>None\<close> while none of them is over.\<close>

definition main_select :: "bool \<Rightarrow> anyhow + unit \<Rightarrow> anyhow + unit \<Rightarrow> string option \<Rightarrow> (anyhow + unit) option" where
  "main_select ctrl_c stream timer health =
     (if ctrl_c \<or> worker_over stream \<or> worker_over timer \<or> health \<noteq> None then Some (Inr ()) else None)"

lemma is_ok_iff: "is_ok r \<longleftrightarrow> (\<exists>x. r = Inr x)"
  by (cases r) (simp_all add: is_ok_def)

section \<open>Tasks that cannot fail\<close>

text \<open>Whatever the state at each of its steps, the task does not end with an error.\<close>

primrec never_fails :: "('s, 'e, 'a) proc \<Rightarrow> bool" where
  "never_fails (Ready r) \<longleftrightarrow> is_ok r"
| "never_fails (Await g) \<longleftrightarrow> (\<forall>s. fst (map_prod never_fails id (g s)))"

lemma never_fails_Await: "never_fails (Await g) \<longleftrightarrow> (\<forall>s. never_fails (fst (g s)))"
  by simp

declare never_fails.simps(2) [simp del]

lemma never_fails_attempt: "never_fails (attempt p)"
  by (induction p rule: proc_induct) (simp_all add: never_fails_Await map_prod_pair is_ok_def)

lemma never_fails_then: "never_fails p \<Longrightarrow> (\<And>x. never_fails (f x)) \<Longrightarrow> never_fails (and_then p f)"
  by (induction p rule: proc_induct)
    (auto simp: never_fails_Await map_prod_pair is_ok_def split: sum.splits)

lemma never_fails_ok: "never_fails (ok x)"
  by (simp add: is_ok_def)

lemma never_fails_ignore: "never_fails (ignore p)"
  unfolding ignore_def by (intro never_fails_then never_fails_attempt never_fails_ok)

lemma never_fails_for_each: "(\<And>x. never_fails (f x)) \<Longrightarrow> never_fails (for_each xs f)"
  by (induction xs) (auto intro: never_fails_then simp: is_ok_def)

lemma never_fails_run: "never_fails p \<Longrightarrow> is_ok (fst (run p s))"
  by (induction p arbitrary: s rule: proc_induct) (simp_all add: never_fails_Await run_Await)

lemma never_fails_interleaved:
  assumes "interleave\<^sup>*\<^sup>* (ps, s) (qs, s')" and "i < length ps" and "never_fails (ps ! i)"
  shows "i < length qs \<and> never_fails (qs ! i)"
  using assms(1)
proof (induction "(qs, s')" arbitrary: qs s' rule: rtranclp_induct)
  case base
  then show ?case using assms(2,3) by simp
next
  case (step c)
  obtain rs t where c: "c = (rs, t)" by (cases c)
  with step have IH: "i < length rs" "never_fails (rs ! i)" by blast+
  from step(2) obtain j g p where "j < length rs" "rs ! j = Await g" "g t = (p, s')" "qs = rs[j := p]"
    unfolding c by (auto elim: interleaveE)
  with IH show ?case
    by (cases "i = j") (auto simp: never_fails_Await dest: spec[of _ t])
qed

lemma workers_never_fail:
  "never_fails (stream_run n E cfg)" "never_fails (timer_run n E cfg)"
proof -
  have ack: "never_fails (ack E cfg entry)" for entry
    unfolding ack_def by (rule never_fails_ignore)
  have entry: "never_fails (process_entry E cfg entry)" for entry
    unfolding process_entry_def
    by (auto intro!: never_fails_then never_fails_attempt ack never_fails_ok split: option.split sum.split
        simp del: never_fails.simps)
  have round: "never_fails (stream_round E cfg)"
    unfolding stream_round_def
    by (rule never_fails_then[OF never_fails_attempt])
      (auto intro!: never_fails_for_each entry never_fails_ok split: sum.split simp del: never_fails.simps)
  show "never_fails (stream_run n E cfg)" "never_fails (timer_run n E cfg)"
    unfolding stream_run_def timer_run_def timer_tick_def
    by (intro never_fails_for_each round never_fails_then never_fails_ignore)+
qed

section \<open>Properties\<close>

text \<open>C20. The workers run on: in every interleaving of the stream consumer and the timer with any other
  tasks, and whatever the services answer, neither worker ends with an error, and both can always finish
  the rounds they are in.\<close>

theorem workers_run_on:
  assumes "interleave\<^sup>*\<^sup>* ([stream_run n E cfg, timer_run m E cfg] @ ps, s) (qs, s')" and "i < 2"
  shows "(\<forall>r. qs ! i = Ready r \<longrightarrow> r = Inr ()) \<and> (\<exists>s''. interleave\<^sup>*\<^sup>* (qs, s') (qs[i := ok ()], s''))"
proof -
  have "never_fails (([stream_run n E cfg, timer_run m E cfg] @ ps) ! i)"
    using assms(2) by (cases i) (simp_all add: workers_never_fail)
  with never_fails_interleaved[OF assms(1), of i] assms(2)
  have i: "i < length qs" "never_fails (qs ! i)" by auto
  from never_fails_run[OF i(2), of s'] obtain s'' where "run (qs ! i) s' = (Inr (), s'')"
    by (cases "run (qs ! i) s'") (auto simp: is_ok_def split: sum.splits)
  from interleave_run[OF i(1) this] i(2) show ?thesis
    by (auto simp: is_ok_def split: sum.splits)
qed

theorem workers_run_on_witness:
  "fst (run (stream_run 3 mem_env mem_cfg) mem_start) = Inr ()"
proof -
  let ?ps = "[stream_run 3 mem_env mem_cfg, timer_run 2 mem_env mem_cfg]"
  have "interleave\<^sup>*\<^sup>* (?ps @ [], mem_start)
      (?ps[0 := Ready (fst (run (stream_run 3 mem_env mem_cfg) mem_start))], snd (run (stream_run 3 mem_env mem_cfg) mem_start))"
    using interleave_run[of 0 ?ps mem_start] by simp
  from workers_run_on[OF this, of 0] show ?thesis by simp
qed

text \<open>C28. What ends the reconciler: after start-up \<open>main\<close> returns exactly when it is interrupted, when the
  health endpoint cannot bind its address, or when one \<open>accept\<close> fails, and then it returns \<open>Ok\<close>. The
  connections accepted before are answered; the workers, as long as none of them panics, never end it.\<close>

theorem health_endpoint_ends_reconciler:
  "main_select ctrl_c (fst (run (stream_run n E cfg) s)) (fst (run (timer_run m E cfg) t))
     (snd (run_health_endpoint addr bind accepts)) =
       (if ctrl_c \<or> (\<exists>e. bind (case addr of Some a \<Rightarrow> a | None \<Rightarrow> ''0.0.0.0:8081'') = Inl e)
          \<or> (\<exists>e. Inl e \<in> set accepts) then Some (Inr ()) else None)
   \<and> map Inr (fst (run_health_endpoint addr bind accepts)) =
       (case bind (case addr of Some a \<Rightarrow> a | None \<Rightarrow> ''0.0.0.0:8081'') of
          Inl _ \<Rightarrow> [] | Inr _ \<Rightarrow> takeWhile is_ok accepts)"
proof -
  have "is_ok (fst (run (stream_run n E cfg) s))" "is_ok (fst (run (timer_run m E cfg) t))"
    by (intro never_fails_run workers_never_fail)+
  then have "\<not> worker_over (fst (run (stream_run n E cfg) s))" "\<not> worker_over (fst (run (timer_run m E cfg) t))"
    by (simp_all add: worker_over_def is_ok_def split: sum.splits)
  moreover have "snd (accept_loop accepts) \<noteq> None \<longleftrightarrow> (\<exists>e. Inl e \<in> set accepts)"
    unfolding accept_loop_outcome by simp
  ultimately show ?thesis
    by (simp add: main_select_def run_health_endpoint_def Let_def accept_loop_spawned split: sum.split
        del: not_None_eq) blast
qed

text \<open>C38. What a probe is told: a request \<open>METHOD path HTTP/1.1\<close> of printable ASCII, with whatever headers, is
  answered by its path. Liveness is always 200, readiness is 200 when Postgres and Redis both answered and
  503 when either did not, and any other path is 404.\<close>

theorem health_requests_answered:
  assumes "list_all (\<lambda>c. 33 \<le> byte c \<and> byte c < 127) (m @ path)" and "m \<noteq> []" and "path \<noteq> []" and "ascii headers"
  shows "fst (run (health_connection E (Some (m @ '' '' @ path @ '' HTTP/1.1'' @ crlf @ headers))) s) = Inr (Some
    (if path = ''/healthz'' then http_response status_ok body_ok
     else if path = ''/readyz'' then
       (if (\<exists>x. fst (fetch_one (pgs E) Select_one (pg_st s)) = Inr x) \<and> (\<exists>x. fst (ping (rds E) (redis_st s)) = Inr x)
        then http_response status_ok body_ready else http_response status_unavailable body_unready)
     else http_response status_not_found body_not_found))"
proof -
  let ?request = "m @ '' '' @ path @ '' HTTP/1.1'' @ crlf @ headers"
  have path: "request_path ?request = path" by (rule request_path_parses[OF assms])
  have read: "(?request = []) = False" using assms(2) by simp
  show ?thesis
    unfolding health_connection_answers option.case path read is_ok_iff by simp
qed

theorem health_requests_answered_witness:
  "fst (run (health_connection mem_env (Some (''GET'' @ '' '' @ ''/readyz'' @ '' HTTP/1.1'' @ crlf @ ''Host: x''))) mem_start)
     = Inr (Some (http_response status_ok body_ready))"
  by (subst health_requests_answered) (simp_all add: ascii_def mem_env_def mem_rds_def mem_pgs_def mem_ping_def)

text \<open>A number variable that is not a 64-bit number stops the program at once, with the context
  \<open>failed to load config\<close>, before any service is contacted.\<close>

theorem malformed_setting_stops_startup:
  assumes "name \<in> set number_names" and "vars name = Some text" and "parse_u64 text = None"
  shows "\<exists>e. run (startup fuel E (from_env fresh malformed vars) pool migrate open_client manager) s
     = (Inl (Context ''failed to load config'' (Other e)), s)"
  using from_env_malformed[where vars = vars, OF assms, of fresh malformed] by (auto simp: startup_def run_simps)

theorem malformed_setting_stops_startup_witness:
  "\<exists>e. run (startup 1 mem_env (from_env ''x'' concat [''reconciler_timeout_ms'' \<mapsto> ''2s'']) (\<lambda>_ _ _ p. (Inr (), p))
       (\<lambda>p. (Inr (), p)) Inr (\<lambda>_ r. (Inr (), r))) mem_start
     = (Inl (Context ''failed to load config'' (Other e)), mem_start)"
  by (rule malformed_setting_stops_startup[of "''reconciler_timeout_ms''" _ "''2s''"])
    (simp_all add: number_names_def parse_u64_def strip_plus_def parse_nat_def is_digit_def)

end
