(* ===== verification/Stats.thy ===== *)
theory Stats imports Services
begin

text \<open>
  \<open>RedisStore::get_matcher_stats\<close> of \<open>src/matcher/src/store.rs\<close>: reading the counters
  and the latency lists, and what is computed from them. Conversions and arithmetic on \<open>f64\<close>
  are the environment's; the values they are applied to are chosen here.
\<close>

record latency_stats =
  p50_ms :: f64
  p99_ms :: f64
  avg_ms :: f64

record matcher_stats =
  events_processed :: i64
  throughput_eps :: i64
  successful_matches :: i64
  failed_matches :: i64
  match_success_rate :: i32
  active_windows :: i64
  total_latency :: latency_stats
  logic_latency :: latency_stats

text \<open>The literals \<open>1000.0\<close> and \<open>100.0\<close>.\<close>

definition thousand :: f64 where "thousand = 0x408F400000000000"
definition hundred :: f64 where "hundred = 0x4059000000000000"

text \<open>Rust's \<open>/\<close> on \<open>i64\<close> by a positive literal truncates towards zero.\<close>

definition div_trunc :: "i64 \<Rightarrow> int \<Rightarrow> i64" where
  "div_trunc a d =
     (if sint a < 0 then word_of_int (- ((- sint a) div d)) else word_of_int (sint a div d))"

text \<open>\<open>filter_map(|s| s.parse().ok())\<close> and the sort.\<close>

definition parse_latencies :: "string list \<Rightarrow> i64 list" where
  "parse_latencies ls = sort_key sint (List.map_filter parse_i64 ls)"

definition p50_index :: "i64 list \<Rightarrow> nat" where
  "p50_index vals = length vals div 2"

definition p99_index :: "i64 list \<Rightarrow> nat" where
  "p99_index vals = min (length vals * 99 div 100) (length vals - 1)"

definition calc_stats :: "('r, 'p) env \<Rightarrow> i64 list \<Rightarrow> latency_stats" where
  "calc_stats E vals =
     (if vals = [] then \<lparr>p50_ms = 0, p99_ms = 0, avg_ms = 0\<rparr>
      else
        \<lparr>p50_ms = f64_div E (f64_of_i64 E (vals ! p50_index vals)) thousand,
         p99_ms = f64_div E (f64_of_i64 E (vals ! p99_index vals)) thousand,
         avg_ms = f64_div E (f64_div E (f64_of_i64 E (sum_list vals))
                               (f64_of_i64 E (of_nat (length vals)))) thousand\<rparr>)"

definition success_rate :: "('r, 'p) env \<Rightarrow> i64 \<Rightarrow> i64 \<Rightarrow> i32" where
  "success_rate E success failed =
     (if 0 < sint (success + failed) then
        i32_of_f64 E (f64_mul E (f64_div E (f64_of_i64 E success) (f64_of_i64 E (success + failed)))
                        hundred)
      else 0)"

definition active_estimate :: "i64 \<Rightarrow> i64 \<Rightarrow> i64 \<Rightarrow> i64" where
  "active_estimate all_events success failed =
     (let d = all_events - success - failed in if sint d < 0 then 0 else d)"

definition or_default :: "'a \<Rightarrow> 'e + 'a \<Rightarrow> 'a" where
  "or_default d r = (case r of Inl _ \<Rightarrow> d | Inr x \<Rightarrow> x)"

definition get_matcher_stats :: "('r, 'p) env \<Rightarrow> ('r, 'p, reconciler_error, matcher_stats) io" where
  "get_matcher_stats E =
     and_then (attempt (redis_call (get_i64 (rds E) ''metrics:events:total''))) (\<lambda>total.
     and_then (attempt (redis_call (get_i64 (rds E) ''metrics:matches:success''))) (\<lambda>success.
     and_then (attempt (redis_call (get_i64 (rds E) ''metrics:matches:failed''))) (\<lambda>failed.
     and_then (attempt (redis_call (lrange (rds E) ''metrics:latencies:total'' 0 (- 1)))) (\<lambda>tl.
     and_then (attempt (redis_call (lrange (rds E) ''metrics:latencies:logic'' 0 (- 1)))) (\<lambda>ll.
     let total_events = or_default 0 total;
         success_matches = or_default 0 success;
         failures = or_default 0 failed
     in ok \<lparr>events_processed = total_events,
            throughput_eps = div_trunc total_events 60,
            successful_matches = success_matches,
            failed_matches = failures,
            match_success_rate = success_rate E success_matches failures,
            active_windows = active_estimate total_events success_matches failures,
            total_latency = calc_stats E (parse_latencies (or_default [] tl)),
            logic_latency = calc_stats E (parse_latencies (or_default [] ll))\<rparr>)))))"

section \<open>Properties\<close>

lemma sorted_latencies: "sorted (map sint (parse_latencies ls))"
  by (simp add: parse_latencies_def)

text \<open>C39. On a non-empty list of latencies both percentile positions are in range (indexing never
  panics), and the reported median is at most the reported 99th percentile, whatever the list
  read from the server holds.\<close>

theorem percentiles_in_range_and_ordered:
  assumes "parse_latencies ls \<noteq> []"
  shows "p50_index (parse_latencies ls) < length (parse_latencies ls)
    \<and> p99_index (parse_latencies ls) < length (parse_latencies ls)
    \<and> sint (parse_latencies ls ! p50_index (parse_latencies ls))
        \<le> sint (parse_latencies ls ! p99_index (parse_latencies ls))"
proof -
  let ?v = "parse_latencies ls"
  have pos: "0 < length ?v" using assms by simp
  have "p50_index ?v < length ?v" using pos by (simp add: p50_index_def)
  moreover have "p99_index ?v < length ?v"
    using pos unfolding p99_index_def by (intro min.strict_coboundedI2) simp
  moreover have "p50_index ?v \<le> p99_index ?v"
    unfolding p50_index_def p99_index_def by simp
  ultimately show ?thesis
    using sorted_nth_mono[OF sorted_latencies, of "p50_index ?v" "p99_index ?v" ls] by simp
qed

theorem percentiles_in_range_and_ordered_witness:
  "sint (parse_latencies [''7'', ''x'', ''-3''] ! p50_index (parse_latencies [''7'', ''x'', ''-3'']))
     \<le> sint (parse_latencies [''7'', ''x'', ''-3''] ! p99_index (parse_latencies [''7'', ''x'', ''-3'']))"
proof -
  have "parse_latencies [''7'', ''x'', ''-3''] \<noteq> []"
    by (simp add: parse_latencies_def map_filter_simps parse_i64_def parse_nat_def is_digit_def
        digit_val_def)
  from percentiles_in_range_and_ordered[OF this] show ?thesis by blast
qed

text \<open>The reported number of active windows is not the number of open windows: the event
  counter counts every event, the match counters every transaction, so after \<open>n\<close> transactions of
  three events each, all of them finalised, the statistics report \<open>2 n\<close> active windows.\<close>

theorem active_windows_overcounted:
  assumes "3 * n < 2 ^ 63" and "k \<le> n"
  shows "sint (active_estimate (of_nat (3 * n)) (of_nat k) (of_nat (n - k))) = 2 * int n"
proof -
  have "(of_nat (n - k) :: i64) = of_nat n - of_nat k"
    using assms(2) by simp
  then have s: "(of_nat (3 * n) :: i64) - of_nat k - of_nat (n - k) = of_nat (2 * n)"
    by (simp add: algebra_simps)
  have "sint (of_nat (2 * n) :: i64) = 2 * int n"
    using assms(1) sint_of_nat_small[of "2 * n"] by simp
  then show ?thesis unfolding active_estimate_def Let_def s by simp
qed

theorem active_windows_overcounted_witness:
  "sint (active_estimate (of_nat (3 * 1)) (of_nat 1) (of_nat (1 - 1))) = 2 * int 1"
  by (rule active_windows_overcounted) simp_all

end
