(* ===== verification/Task_Invariants.thy ===== *)
theory Task_Invariants imports Stream_Task Timer_Task
begin

text \<open>
  Invariants of the running system under every interleaving. \<open>redis_steps E U X Z\<close> lists the
  commands the tasks can issue after start-up, with the keys they use: \<open>U\<close> are the event ids they
  can claim, \<open>X\<close> the transactions they work on, \<open>Z\<close> those whose deadlines they change (all of them for the running system, one of each
  for the handling of one event); the locale \<open>task_invariant\<close> states
  what an invariant has to withstand (each of those commands, any change of the database, any clock
  reading, the three operations on the map of windows) and derives that every task keeps it step
  by step. What is saved under a window's key is the text of a well-formed window of that transaction.
  The locale is interpreted here for the well-formedness of the windows, which needs no law of any
  service, and for a claimed event id, on a documented Redis server; later theories add their own.
\<close>

section \<open>Well-formed windows\<close>

definition window_ok :: "uuid \<Rightarrow> partial_transaction \<Rightarrow> bool" where
  "window_ok tx w \<longleftrightarrow> pt_transaction_id w = tx
     \<and> (\<forall>src e. events w src = Some e \<longrightarrow> pe_source e = src \<and> pe_transaction_id e = tx)"

definition windows_ok :: "('r, 'p) world \<Rightarrow> bool" where
  "windows_ok s \<longleftrightarrow> (\<forall>tx w. windows s tx = Some w \<longrightarrow> window_ok tx w)"

lemma windows_ok_simps:
  "windows_ok (s\<lparr>redis_st := r\<rparr>) = windows_ok s"
  "windows_ok (s\<lparr>pg_st := p\<rparr>) = windows_ok s"
  "windows_ok (s\<lparr>reads := n\<rparr>) = windows_ok s"
  "windows_ok s \<Longrightarrow> (\<And>w. x = Some w \<Longrightarrow> window_ok tx w) \<Longrightarrow>
     windows_ok (s\<lparr>windows := (windows s)(tx := x)\<rparr>)"
  "windows_ok s \<Longrightarrow> windows s tx = Some w \<Longrightarrow> window_ok tx w"
  by (simp_all add: windows_ok_def)

lemma window_ok_simps:
  "window_ok tx w \<Longrightarrow> pt_transaction_id w = tx"
  "window_ok tx (new_partial tx now timeout)"
  "window_ok tx w \<Longrightarrow> pe_transaction_id e = tx \<Longrightarrow>
     window_ok tx (w\<lparr>events := (events w)(pe_source e \<mapsto> e)\<rparr>)"
  "window_ok tx w \<Longrightarrow> window_ok tx (w\<lparr>processing_time_micros := t\<rparr>)"
  by (simp_all add: window_ok_def new_partial_def)

section \<open>The commands of the tasks\<close>

definition counter_key :: "string \<Rightarrow> bool" where
  "counter_key k \<longleftrightarrow> starts_with ''metrics:'' k \<or> starts_with ''source:'' k"

text \<open>The writes to the two sorted sets.\<close>

inductive zset_steps :: "('r, 'p) env \<Rightarrow> uuid set \<Rightarrow> 'r \<Rightarrow> 'r \<Rightarrow> bool" for E Z where
  st_zadd: "zadd (rds E) deadlines_key (uuid_str E u) score r = (x2, r') \<Longrightarrow>
     u \<in> Z \<Longrightarrow> zset_steps E Z r r'"
| st_zrem: "zrem (rds E) deadlines_key v r = (x3, r') \<Longrightarrow>
     Z = UNIV \<or> v \<in> uuid_str E ` Z \<Longrightarrow> zset_steps E Z r r'"
| st_zadd_esc: "zadd_i64 (rds E) escalations_key i score r = (x2, r') \<Longrightarrow> zset_steps E Z r r'"
| st_zrem_esc: "zrem_i64 (rds E) escalations_key i r = (x3, r') \<Longrightarrow> zset_steps E Z r r'"

text \<open>Everything else.\<close>

inductive plain_steps :: "('r, 'p) env \<Rightarrow> uuid set \<Rightarrow> uuid set \<Rightarrow> 'r \<Rightarrow> 'r \<Rightarrow> bool" for E U X where
  st_claim: "set_nx_px (rds E) (dedup_key E u) v ttl r = (x, r') \<Longrightarrow> u \<in> U \<Longrightarrow> plain_steps E U X r r'"
| st_save: "set_px (rds E) (window_key E u) v ttl r = (x1, r') \<Longrightarrow> u \<in> X \<Longrightarrow>
     window_ok u w \<Longrightarrow> window_to_json E w = Inr v \<Longrightarrow> plain_steps E U X r r'"
| st_del_window: "del (rds E) (window_key E u) r = (x2, r') \<Longrightarrow> u \<in> X \<Longrightarrow> plain_steps E U X r r'"
| st_del_sources: "del (rds E) (sources_key E u) r = (x2, r') \<Longrightarrow> u \<in> X \<Longrightarrow> plain_steps E U X r r'"
| st_sadd: "sadd (rds E) (sources_key E u) v r = (x3, r') \<Longrightarrow> u \<in> X \<Longrightarrow> plain_steps E U X r r'"
| st_expire_sources: "expire (rds E) (sources_key E u) secs r = (x2, r') \<Longrightarrow> u \<in> X \<Longrightarrow> plain_steps E U X r r'"
| st_zrange: "zrangebyscore (rds E) deadlines_key score r = (x4, r') \<Longrightarrow> plain_steps E U X r r'"
| st_zrange_esc: "zrangebyscore_i64 (rds E) escalations_key score r = (x5, r') \<Longrightarrow> plain_steps E U X r r'"
| st_publish: "publish_cmd (rds E) ch v r = (x3, r') \<Longrightarrow> plain_steps E U X r r'"
| st_incr: "incr (rds E) k i r = (x2, r') \<Longrightarrow> counter_key k \<Longrightarrow> plain_steps E U X r r'"
| st_setex: "setex (rds E) k secs v r = (x2, r') \<Longrightarrow> counter_key k \<Longrightarrow> plain_steps E U X r r'"
| st_lpush: "lpush (rds E) k i r = (x2, r') \<Longrightarrow> counter_key k \<Longrightarrow> plain_steps E U X r r'"
| st_ltrim: "ltrim (rds E) k 0 i r = (x2, r') \<Longrightarrow> counter_key k \<Longrightarrow> plain_steps E U X r r'"
| st_expire: "expire (rds E) k i r = (x2, r') \<Longrightarrow> counter_key k \<Longrightarrow> plain_steps E U X r r'"
| st_xread: "xreadgroup (rds E) k v ch n m r = (x6, r') \<Longrightarrow> plain_steps E U X r r'"
| st_xack: "xack (rds E) k v ids r = (x3, r') \<Longrightarrow> plain_steps E U X r r'"

inductive redis_steps ::
  "('r, 'p) env \<Rightarrow> uuid set \<Rightarrow> uuid set \<Rightarrow> uuid set \<Rightarrow> 'r \<Rightarrow> 'r \<Rightarrow> bool" for E U X Z where
  st_zset: "zset_steps E Z r r' \<Longrightarrow> redis_steps E U X Z r r'"
| st_plain: "plain_steps E U X r r' \<Longrightarrow> redis_steps E U X Z r r'"

lemmas step_intros = zset_steps.intros[THEN redis_steps.st_zset] plain_steps.intros[THEN redis_steps.st_plain]

section \<open>What an invariant has to withstand\<close>

locale task_invariant =
  fixes E :: "('r, 'p) env" and cfg :: config and U X Z :: "uuid set"
    and I :: "('r, 'p) world \<Rightarrow> bool"
  assumes redis_step: "I s \<Longrightarrow> redis_steps E U X Z (redis_st s) r \<Longrightarrow> I (s\<lparr>redis_st := r\<rparr>)"
    and pg_step: "I s \<Longrightarrow> I (s\<lparr>pg_st := p\<rparr>)"
    and clock_step: "I s \<Longrightarrow> I (s\<lparr>reads := n\<rparr>)"
    and windows_step: "I s \<Longrightarrow> tx \<in> X \<Longrightarrow> I (s\<lparr>windows := (windows s)(tx := x)\<rparr>)"
begin

text \<open>The windows are well formed too, at every point.\<close>

abbreviation inv :: "('r, 'p) world \<Rightarrow> bool" where
  "inv s \<equiv> I s \<and> windows_ok s"

abbreviation safe :: "(('r, 'p) world, 'e, 'a) proc \<Rightarrow> bool" where
  "safe p \<equiv> keeps inv (\<lambda>_. True) p"

lemma safe_ready: "safe (Ready r)"
  by (simp split: sum.splits)

lemma safe_and_then: "safe p \<Longrightarrow> (\<And>x. safe (f x)) \<Longrightarrow> safe (and_then p f)"
  by (rule keeps_and_then[where Q = "\<lambda>_. True"])

lemma safe_attempt: "safe p \<Longrightarrow> safe (attempt p)"
  by (rule keeps_weaken[OF keeps_attempt]) auto

lemma safe_redis: "(\<And>r x r'. f r = (x, r') \<Longrightarrow> redis_steps E U X Z r r') \<Longrightarrow> safe (redis_call f)"
  by (rule keeps_redis_call) (simp add: redis_step windows_ok_simps)

lemma safe_pg: "safe (pg_call f)"
  by (rule keeps_pg_call) (simp add: pg_step windows_ok_simps)

lemma safe_clock: "safe (read_clock f)"
  by (rule keeps_read_clock) (simp add: clock_step windows_ok_simps)

lemma safe_lift_result: "safe (lift_result r)"
  by (simp add: lift_result_def safe_ready del: keeps.simps)

lemma safe_insert: "tx \<in> X \<Longrightarrow> window_ok tx w \<Longrightarrow> safe (windows_insert tx w)"
  unfolding windows_insert_def by (rule keeps_atomic) (auto intro: windows_step windows_ok_simps)

lemma safe_remove:
  "tx \<in> X \<Longrightarrow> keeps inv (\<lambda>w. case w of None \<Rightarrow> True | Some x \<Rightarrow> window_ok tx x) (windows_remove tx)"
  unfolding windows_remove_def
  by (rule keeps_atomic) (auto intro: windows_step windows_ok_simps split: option.splits)

lemma safe_entry: "tx \<in> X \<Longrightarrow> window_ok tx fresh \<Longrightarrow> keeps inv (window_ok tx) (windows_entry tx fresh)"
  unfolding windows_entry_def
  by (rule keeps_atomic) (auto intro: windows_step windows_ok_simps split: option.splits)

lemma safe_map_err: "safe p \<Longrightarrow> safe (map_err h p)"
  by (rule keeps_map_err)

lemma safe_ignore: "safe p \<Longrightarrow> safe (ignore p)"
  by (rule keeps_ignore)

lemmas safe_rules = safe_ready safe_and_then safe_attempt safe_map_err safe_ignore safe_pg
  safe_clock safe_lift_result keeps_for_each safe_redis

lemma safe_if: "safe p \<Longrightarrow> safe q \<Longrightarrow> safe (if b then p else q)"
  by simp

lemma safe_save:
  assumes "tx \<in> X" and "window_ok tx w"
  shows "safe (save_window E w)"
  unfolding save_window_def
proof (rule keeps_and_then)
  show "keeps inv (\<lambda>json. window_to_json E w = Inr json) (map_err Serde (lift_result (window_to_json E w)))"
    by (cases "window_to_json E w") (simp_all add: lift_result_def)
  fix json
  assume "window_to_json E w = Inr json"
  with assms window_ok_simps(1)[OF assms(2)] show "safe (rcall (set_px (rds E) (window_key E (pt_transaction_id w)) json 30000))"
    by (intro safe_map_err safe_redis) (auto intro: step_intros)
qed

lemmas safe_unfold = try_claim_event_def delete_window_def add_deadline_def
  remove_deadline_def add_escalation_def try_register_source_def cleanup_sources_def publish_def
  record_match_result_def publish_event_def escalate_incident_def create_incident_def
  upsert_transaction_def upsert_reconciliation_details_def utc_now_def elapsed_def

lemma safe_stores:
  "u \<in> U \<Longrightarrow> safe (try_claim_event E u ttl)"
  "tx \<in> X \<Longrightarrow> window_ok tx w \<Longrightarrow> safe (save_window E w)"
  "tx \<in> X \<Longrightarrow> safe (delete_window E tx)"
  "tx \<in> Z \<Longrightarrow> safe (add_deadline E tx d)"
  "tx \<in> Z \<Longrightarrow> safe (remove_deadline E tx)" "safe (add_escalation E i d)"
  "tx \<in> X \<Longrightarrow> safe (try_register_source E tx src)"
  "tx \<in> X \<Longrightarrow> safe (cleanup_sources E tx)"
  "safe (record_match_result E b)" "safe (publish_event E ch ev)"
  unfolding safe_unfold
  by ((rule safe_save; assumption) | (intro safe_rules safe_if; ((rule step_intros, assumption); (auto simp: counter_key_def)?)?))+

lemma safe_record: "safe (record_event_processed E src t l)"
  unfolding record_event_processed_def
  by (intro safe_rules; ((rule step_intros, assumption); (auto simp: counter_key_def)?)?)

lemma safe_database:
  "safe (upsert_transaction E tx st cur ty mid ms)" "safe (upsert_reconciliation_details E tx ds)"
  "safe (create_incident E i)" "safe (escalate_incident E j sev)"
  "safe (utc_now E)" "safe (elapsed E)"
  unfolding safe_unfold by (intro safe_rules)+

lemma safe_pop_deadlines_loop:
  assumes "Z = UNIV"
  shows "safe (pop_deadlines_loop E ms acc)"
proof (induction ms arbitrary: acc)
  case Nil
  show ?case by (simp add: safe_ready del: keeps.simps)
next
  case (Cons m ms)
  show ?case unfolding pop_deadlines_loop.simps
    by (intro safe_rules safe_if; (auto intro: step_intros Cons simp: assms split: option.split)?)
qed

lemma safe_pop_escalations_loop: "safe (pop_escalations_loop E js acc)"
proof (induction js arbitrary: acc)
  case Nil
  show ?case by (simp add: safe_ready del: keeps.simps)
next
  case (Cons j js)
  show ?case unfolding pop_escalations_loop.simps
    by (intro safe_rules safe_if; (auto intro: step_intros Cons)?)
qed

lemma safe_pops: "Z = UNIV \<Longrightarrow> safe (pop_expired_deadlines E now)" "safe (pop_expired_escalations E now)"
  unfolding pop_expired_deadlines_def pop_expired_escalations_def
  by (intro safe_rules safe_pop_deadlines_loop safe_pop_escalations_loop;
      (auto intro: step_intros)?)+

lemma safe_persist: "safe (persist_incident E cfg i)"
  unfolding persist_incident_def by (intro safe_rules safe_if safe_stores safe_database)

lemma safe_cleanup: "tx \<in> X \<Longrightarrow> tx \<in> Z \<Longrightarrow> safe (cleanup_window E tx)"
  unfolding cleanup_window_def
  by (intro safe_rules safe_stores keeps_weaken[OF safe_remove] TrueI)

lemma safe_report: "safe (report_result E cfg tx now result)"
  unfolding report_result_def
  by (cases result) (auto intro!: safe_rules safe_stores safe_persist simp del: keeps.simps)

lemma safe_finalize: "pt_transaction_id w \<in> X \<Longrightarrow> pt_transaction_id w \<in> Z \<Longrightarrow> safe (finalize_window E cfg w)"
  unfolding finalize_window_def Let_def
  by (intro safe_rules safe_database safe_report safe_cleanup)

lemma safe_degrade: "tx \<in> X \<Longrightarrow> tx \<in> Z \<Longrightarrow> safe (degrade_window E cfg tx w)"
  unfolding degrade_window_def Let_def
  by (intro safe_rules safe_database safe_persist safe_cleanup)

lemma safe_handle_timeout:
  assumes tx: "tx \<in> X" "tx \<in> Z"
  shows "safe (handle_timeout E cfg tx)"
  unfolding handle_timeout_def
proof (rule keeps_and_then[OF safe_remove[OF tx(1)]])
  fix x
  assume x: "case x of None \<Rightarrow> True | Some w \<Rightarrow> window_ok tx w"
  show "safe (case x of None \<Rightarrow> ok () | Some window \<Rightarrow>
      if is_complete window (expected_sources_count cfg) then finalize_window E cfg window
      else degrade_window E cfg tx window)"
  proof (cases x)
    case None
    show ?thesis unfolding None option.case by (rule safe_ready)
  next
    case (Some w)
    with x have "pt_transaction_id w = tx" by (simp add: window_ok_simps)
    with tx show ?thesis unfolding Some option.case
      by (intro safe_if safe_finalize safe_degrade; simp)
  qed
qed

lemma safe_settle:
  assumes w: "window_ok tx w" and tx: "tx \<in> X" "tx \<in> Z"
  shows "safe (settle_window E cfg tx now w)"
proof -
  have "pt_transaction_id w = tx" using w by (rule window_ok_simps)
  with tx show ?thesis
    unfolding settle_window_def Let_def
    by (intro safe_rules safe_if safe_database safe_stores(2)[OF tx(1) window_ok_simps(4)[OF w]] safe_stores(10)
        safe_finalize safe_insert window_ok_simps(4) w tx; simp)
qed

lemma safe_add_to_window:
  assumes tx: "pe_transaction_id event \<in> X" "pe_transaction_id event \<in> Z"
  shows "safe (add_to_window E cfg event now)"
proof -
  let ?tx = "pe_transaction_id event"
  show ?thesis
    unfolding add_to_window_def Let_def
  proof (rule keeps_and_then[OF safe_entry[OF tx(1) window_ok_simps(2)]])
    fix found
    assume "window_ok ?tx found"
    then have w: "window_ok ?tx (found\<lparr>events := (events found)(pe_source event \<mapsto> event)\<rparr>)"
      by (rule window_ok_simps) simp
    show "safe (and_then
        (if events_len (events found) = 0
         then and_then (lift (add_deadline E ?tx
                (deadline_ms (found\<lparr>events := (events found)(pe_source event \<mapsto> event)\<rparr>))))
                (\<lambda>_. emit E cfg (TransactionReceived ?tx (pe_source event) now))
         else ok ())
        (\<lambda>_. and_then (windows_insert ?tx (found\<lparr>events := (events found)(pe_source event \<mapsto> event)\<rparr>))
        (\<lambda>_. and_then (lift (save_window E (found\<lparr>events := (events found)(pe_source event \<mapsto> event)\<rparr>)))
        (\<lambda>_. and_then (settle_window E cfg ?tx now
                (found\<lparr>events := (events found)(pe_source event \<mapsto> event)\<rparr>))
        (\<lambda>logic_micros. and_then (elapsed E)
        (\<lambda>total_micros. ignore (record_event_processed E (source_name (pe_source event))
                total_micros logic_micros)))))))"
      by (intro safe_rules safe_if safe_stores(2)[OF tx(1) w] safe_stores(4,10) safe_insert[OF tx(1) w] safe_settle[OF w tx]
          safe_database safe_record tx)
  qed
qed

lemma safe_claimed_event:
  "pe_transaction_id event \<in> X \<Longrightarrow> pe_transaction_id event \<in> Z \<Longrightarrow> safe (claimed_event E cfg event)"
  unfolding claimed_event_def handle_duplicate_def Let_def
  by (intro safe_rules safe_if safe_stores safe_database safe_persist safe_record
      safe_add_to_window)

lemma safe_handle_event:
  "event_id (sm_event msg) \<in> U \<Longrightarrow> pe_transaction_id (sm_event msg) \<in> X \<Longrightarrow>
     pe_transaction_id (sm_event msg) \<in> Z \<Longrightarrow> safe (handle_event E cfg msg)"
  unfolding handle_event_def Let_def
  by (intro safe_rules safe_if safe_stores safe_claimed_event)

lemma safe_escalation: "safe (escalation_task E cfg i)"
  unfolding escalation_task_def
  by (intro safe_rules safe_database)
    (auto intro!: safe_rules safe_database safe_stores split: sum.split simp del: keeps.simps)

lemma safe_timer_tick:
  assumes "X = UNIV" and "Z = UNIV"
  shows "safe (timer_tick E cfg)"
proof -
  have timeout: "safe (handle_timeout E cfg tx)" for tx
    by (rule safe_handle_timeout) (simp_all add: assms)
  show ?thesis
    unfolding timer_tick_def process_expired_windows_def process_expired_escalations_def
      expired_windows_def expired_escalations_def timeout_task_def
    by (intro safe_rules safe_if safe_database safe_pops timeout safe_escalation assms)
qed

lemma safe_stream_round:
  assumes "U = UNIV" and "X = UNIV" and "Z = UNIV"
  shows "safe (stream_round E cfg)"
proof -
  have handle: "safe (handle_event E cfg msg)" for msg
    by (rule safe_handle_event) (simp_all add: assms)
  have ack: "safe (ack E cfg entry)" for entry
    unfolding ack_def ack_message_def
    by (intro safe_rules) (auto intro: step_intros)
  have entry: "safe (process_entry E cfg entry)" for entry
    unfolding process_entry_def
    by (cases "entry_message E entry")
      (auto intro!: safe_rules handle ack split: sum.split simp del: keeps.simps)
  show ?thesis
    unfolding stream_round_def
    by (intro safe_rules)
      (auto intro!: safe_rules entry intro: step_intros split: sum.split simp del: keeps.simps)
qed

end

section \<open>Tasks of the running system\<close>

inductive engine_task :: "('r, 'p) env \<Rightarrow> config \<Rightarrow> ('r, 'p, anyhow, unit) io \<Rightarrow> bool" for E cfg where
  "engine_task E cfg (handle_event E cfg msg)"
| "engine_task E cfg (handle_timeout E cfg tx)"
| "engine_task E cfg (timer_tick E cfg)"
| "engine_task E cfg (stream_round E cfg)"

context task_invariant
begin

lemma safe_engine_task: "engine_task E cfg p \<Longrightarrow> U = UNIV \<Longrightarrow> X = UNIV \<Longrightarrow> Z = UNIV \<Longrightarrow> safe p"
  by (induction rule: engine_task.induct)
    (auto intro: safe_handle_event safe_handle_timeout safe_timer_tick safe_stream_round)

lemma interleaving_keeps:
  assumes "interleave\<^sup>*\<^sup>* (ps, s) (ps', s')" and "\<forall>p \<in> set ps. engine_task E cfg p"
    and "U = UNIV" and "X = UNIV" and "Z = UNIV" and "inv s"
  shows "inv s'"
proof -
  from assms(2) have "\<forall>p \<in> set ps. safe p" by (simp add: safe_engine_task assms(3-5))
  with interleave_keeps[where I = inv and Q = "\<lambda>_. True", OF assms(1,6)] show ?thesis by blast
qed

lemma run_keeps:
  assumes "safe p" and "I s" and "windows_ok s" and "run p s = (r, s')"
  shows "I s'" and "windows_ok s'"
  using keeps_run[OF assms(1) conjI[OF assms(2,3)] assms(4)] by auto

end

text \<open>Nothing further: the windows are well formed.\<close>

interpretation wins: task_invariant E cfg U X Z "\<lambda>_. True" for E cfg U X Z
  by unfold_locales simp_all

section \<open>What the commands leave alone\<close>

text \<open>The keys the commands can write: nothing else changes, except that it may expire.\<close>

definition zset_keys :: "string set" where
  "zset_keys = {deadlines_key, escalations_key}"

definition footprint :: "('r, 'p) env \<Rightarrow> uuid set \<Rightarrow> uuid set \<Rightarrow> string set" where
  "footprint E U X = dedup_key E ` U \<union> window_key E ` X \<union> sources_key E ` X \<union> {k. counter_key k}"

definition leaves :: "string \<Rightarrow> rview \<Rightarrow> rview \<Rightarrow> bool" where
  "leaves k V V' \<longleftrightarrow> clock V \<le> clock V'
     \<and> (\<exists>c \<le> clock V'. cells V' k = unexpired c (cells V k))"

lemma unexpired_unexpired: "unexpired d (unexpired c e) = unexpired (max c d) e"
  by (auto simp: unexpired_def split: option.splits)

lemma leaves_refl: "leaves k V V"
proof -
  have "\<exists>c \<le> clock V. cells V k = unexpired c (cells V k)"
  proof (cases "\<exists>v t. cells V k = Some (v, Some t)")
    case True
    then obtain v t where "cells V k = Some (v, Some t)" by blast
    then show ?thesis by (intro exI[of _ "min (t - 1) (clock V)"]) (simp add: unexpired_def)
  next
    case False
    then show ?thesis by (intro exI[of _ "clock V"]) (auto simp: unexpired_def split: option.splits)
  qed
  then show ?thesis by (simp add: leaves_def)
qed

lemma leaves_trans:
  assumes "leaves k V V'" and "leaves k V' V''"
  shows "leaves k V V''"
proof -
  from assms obtain c d where "clock V \<le> clock V'" "c \<le> clock V'" "cells V' k = unexpired c (cells V k)"
    "clock V' \<le> clock V''" "d \<le> clock V''" "cells V'' k = unexpired d (cells V' k)"
    by (auto simp: leaves_def)
  then show ?thesis
    unfolding leaves_def by (intro conjI exI[of _ "max c d"]) (simp_all add: unexpired_unexpired)
qed

lemma leaves_absent: "leaves k V V' \<Longrightarrow> cells V k = None \<Longrightarrow> cells V' k = None"
  by (auto simp: leaves_def)

context redis_server
begin

lemma uuid_str_inject: "uuid_str E u = uuid_str E v \<longleftrightarrow> u = v"
  by (metis option.inject uuid_round_trip)

lemma leaves_call:
  assumes "complies view rlater f R" and "writes_only K R" and "f r = (x, r')" and "k \<notin> K"
  shows "leaves k (view r) (view r')"
  using complies_frame[OF assms(1,2,4,3)] by (auto simp: leaves_def)

lemma zset_step_leaves:
  assumes "zset_steps E Z r r'" and "k \<notin> zset_keys"
  shows "leaves k (view r) (view r')"
  using assms(1)
proof (cases rule: zset_steps.cases)
  case st_zadd
  show ?thesis
    by (rule leaves_call[OF zadd_law frame_zadd st_zadd(1)]) (use assms(2) st_zadd(2) in \<open>auto simp: zset_keys_def\<close>)
next
  case st_zrem
  show ?thesis
    by (rule leaves_call[OF zrem_law frame_zrem st_zrem(1)]) (use assms(2)  in \<open>auto simp: zset_keys_def\<close>)
next
  case st_zadd_esc
  show ?thesis
    by (rule leaves_call[OF zadd_i64_law frame_zadd st_zadd_esc]) (use assms(2)  in \<open>auto simp: zset_keys_def\<close>)
next
  case st_zrem_esc
  show ?thesis
    by (rule leaves_call[OF zrem_i64_law frame_zrem st_zrem_esc]) (use assms(2)  in \<open>auto simp: zset_keys_def\<close>)
qed

lemma plain_step_leaves:
  assumes "plain_steps E U X r r'" and "k \<notin> footprint E U X"
  shows "leaves k (view r) (view r')"
  using assms(1)
proof (cases rule: plain_steps.cases)
  case st_claim
  show ?thesis
    by (rule leaves_call[OF set_nx_px_law frame_set_nx_px st_claim(1)]) (use assms(2) st_claim(2) in \<open>auto simp: footprint_def\<close>)
next
  case st_save
  show ?thesis
    by (rule leaves_call[OF set_px_law frame_set_px st_save(1)]) (use assms(2) st_save(2) in \<open>auto simp: footprint_def\<close>)
next
  case st_del_window
  show ?thesis
    by (rule leaves_call[OF del_law frame_del st_del_window(1)]) (use assms(2) st_del_window(2) in \<open>auto simp: footprint_def\<close>)
next
  case st_del_sources
  show ?thesis
    by (rule leaves_call[OF del_law frame_del st_del_sources(1)]) (use assms(2) st_del_sources(2) in \<open>auto simp: footprint_def\<close>)
next
  case st_sadd
  show ?thesis
    by (rule leaves_call[OF sadd_law frame_sadd st_sadd(1)]) (use assms(2) st_sadd(2) in \<open>auto simp: footprint_def\<close>)
next
  case st_expire_sources
  show ?thesis
    by (rule leaves_call[OF expire_law frame_expire st_expire_sources(1)]) (use assms(2) st_expire_sources(2) in \<open>auto simp: footprint_def\<close>)
next
  case st_zrange
  show ?thesis
    by (rule leaves_call[OF zrangebyscore_law frame_zrange st_zrange]) simp
next
  case st_zrange_esc
  show ?thesis
    by (rule leaves_call[OF zrangebyscore_i64_law frame_zrange_i64 st_zrange_esc]) simp
next
  case st_publish
  show ?thesis
    by (rule leaves_call[OF publish_law frame_publish st_publish]) simp
next
  case st_incr
  show ?thesis
    by (rule leaves_call[OF incr_law frame_incr st_incr(1)]) (use assms(2) st_incr(2) in \<open>auto simp: footprint_def\<close>)
next
  case st_setex
  show ?thesis
    by (rule leaves_call[OF setex_law frame_setex st_setex(1)]) (use assms(2) st_setex(2) in \<open>auto simp: footprint_def\<close>)
next
  case st_lpush
  show ?thesis
    by (rule leaves_call[OF lpush_law frame_lpush st_lpush(1)]) (use assms(2) st_lpush(2) in \<open>auto simp: footprint_def\<close>)
next
  case st_ltrim
  show ?thesis
    by (rule leaves_call[OF ltrim_law frame_ltrim st_ltrim(1)]) (use assms(2) st_ltrim(2) in \<open>auto simp: footprint_def\<close>)
next
  case st_expire
  show ?thesis
    by (rule leaves_call[OF expire_law frame_expire st_expire(1)]) (use assms(2) st_expire(2) in \<open>auto simp: footprint_def\<close>)
next
  case st_xread
  show ?thesis
    by (rule leaves_call[OF xreadgroup_law frame_stream st_xread]) simp
next
  case st_xack
  show ?thesis
    by (rule leaves_call[OF xack_law frame_stream st_xack]) simp
qed

lemma step_leaves:
  "redis_steps E U X Z r r' \<Longrightarrow> k \<notin> footprint E U X \<union> zset_keys \<Longrightarrow> leaves k (view r) (view r')"
  by (auto elim!: redis_steps.cases intro: zset_step_leaves plain_step_leaves)

end

lemma redis_steps_cases_claim:
  assumes "redis_steps E U X Z r r'"
  obtains (claim) u v ttl x where "u \<in> U" and "set_nx_px (rds E) (dedup_key E u) v ttl r = (x, r')"
        | (other) "redis_steps E {} X Z r r'"
  using assms
proof (cases rule: redis_steps.cases)
  case st_zset
  then show thesis by (intro other redis_steps.st_zset)
next
  case st_plain
  then show thesis
    by (cases rule: plain_steps.cases) (blast intro: claim other step_intros)+
qed

section \<open>A claimed event id stays claimed\<close>

text \<open>\<open>T\<close> is a time of the Redis server: until then the key of the claim is there.\<close>

definition claim_held ::
  "('r, 'p) env \<Rightarrow> ('r \<Rightarrow> rview) \<Rightarrow> uuid \<Rightarrow> int \<Rightarrow> ('r, 'p) world \<Rightarrow> bool" where
  "claim_held E view u T s \<longleftrightarrow> T \<le> clock (view (redis_st s))
     \<or> (\<exists>v t. cells (view (redis_st s)) (dedup_key E u) = Some (v, Some t) \<and> T \<le> t)"

lemma dedup_key_other:
  "dedup_key E u \<noteq> window_key E v" "dedup_key E u \<noteq> sources_key E v"
  "dedup_key E u \<noteq> deadlines_key" "dedup_key E u \<noteq> escalations_key"
  "\<not> counter_key (dedup_key E u)"
  by (simp_all add: dedup_key_def window_key_def sources_key_def deadlines_key_def
      escalations_key_def counter_key_def)

context redis_server
begin

lemma dedup_key_inject: "dedup_key E u = dedup_key E v \<longleftrightarrow> u = v"
  by (simp add: dedup_key_def uuid_str_inject)

lemma dedup_footprint: "u \<notin> U \<Longrightarrow> dedup_key E u \<notin> footprint E U X \<union> zset_keys"
  by (auto simp: footprint_def zset_keys_def dedup_key_other dedup_key_inject)

lemma held_leaves:
  assumes "leaves (dedup_key E u) (view (redis_st s)) (view r)" and "claim_held E view u T s"
  shows "claim_held E view u T (s\<lparr>redis_st := r\<rparr>)"
  using assms by (auto simp: claim_held_def leaves_def unexpired_def)

lemma held_claim:
  assumes "set_nx_px (rds E) (dedup_key E v) val ttl (redis_st s) = (x, r)"
    and "claim_held E view u T s"
  shows "claim_held E view u T (s\<lparr>redis_st := r\<rparr>)"
proof (cases "u = v")
  case False
  then have "dedup_key E u \<notin> {dedup_key E v}" by (simp add: dedup_key_inject)
  from held_leaves[OF leaves_call[OF set_nx_px_law frame_set_nx_px assms(1) this] assms(2)]
  show ?thesis .
next
  case True
  from set_nx_px_law assms(1) show ?thesis
  proof (cases rule: complies_any)
    case (same V)
    with assms(2) show ?thesis by (auto simp: claim_held_def rlater_def unexpired_def)
  next
    case (effect V y)
    with assms(2) True show ?thesis
      by (auto simp: claim_held_def rlater_def unexpired_def sp_set_nx_px_def
          split: if_splits option.splits)
  qed
qed

end

sublocale redis_server \<subseteq> held: task_invariant E cfg U X Z "claim_held E view u T"
  for cfg U X Z u T
proof
  fix s r
  assume I: "claim_held E view u T s" and step: "redis_steps E U X Z (redis_st s) r"
  from step show "claim_held E view u T (s\<lparr>redis_st := r\<rparr>)"
  proof (cases rule: redis_steps_cases_claim)
    case claim
    from claim(2) I show ?thesis by (rule held_claim)
  next
    case other
    then have "leaves (dedup_key E u) (view (redis_st s)) (view r)"
      by (rule step_leaves) (rule dedup_footprint, simp)
    then show ?thesis using I by (rule held_leaves)
  qed
qed (auto simp: claim_held_def)

end
