(* ===== verification/Task_Redis.thy ===== *)
theory Task_Redis imports Task_Invariants Memory_Services
begin

text \<open>
  What the tasks do to a documented Redis server and to the map of windows, whatever the order in
  which they run: an event id is handled once per deduplication interval, the sorted sets stay sets
  of uuids and of incident numbers (so that the contract of due times applies at every point), and
  the handling of one event or one timeout leaves the keys and windows of all other transactions
  alone. Each fact is an interpretation of \<open>task_invariant\<close>.
\<close>

section \<open>The sorted sets\<close>

lemma zset_key_other:
  "deadlines_key \<noteq> dedup_key E u" "deadlines_key \<noteq> window_key E u" "deadlines_key \<noteq> sources_key E u"
  "escalations_key \<noteq> dedup_key E u" "escalations_key \<noteq> window_key E u" "escalations_key \<noteq> sources_key E u"
  "deadlines_key \<noteq> escalations_key" "\<not> counter_key deadlines_key" "\<not> counter_key escalations_key"
  by (simp_all add: dedup_key_def window_key_def sources_key_def deadlines_key_def
      escalations_key_def counter_key_def)

lemma zset_ok_leaves:
  "zset_ok view k M s \<Longrightarrow> leaves k (view (redis_st s)) (view r) \<Longrightarrow> zset_ok view k M (s\<lparr>redis_st := r\<rparr>)"
  by (cases rule: zset_ok_cases) (auto simp: leaves_def zset_ok_def)

lemma zset_ok_call:
  assumes "zset_ok view k M s" and "complies view rlater f R" and "f (redis_st s) = (x, r)"
    and "\<And>V x V'. (\<And>e. cells V k = Some e \<Longrightarrow> \<exists>z. e = (RZset z, None) \<and> dom z \<subseteq> M) \<Longrightarrow> R V x V' \<Longrightarrow>
           (\<And>e. cells V' k = Some e \<Longrightarrow> \<exists>z. e = (RZset z, None) \<and> dom z \<subseteq> M)"
  shows "zset_ok view k M (s\<lparr>redis_st := r\<rparr>)"
  using assms(2,3)
proof (cases rule: complies_any)
  case (same V)
  then show ?thesis using zset_ok_later[OF assms(1) same(1)] assms(1) by (simp add: zset_ok_def)
next
  case (effect V y)
  from zset_ok_later[OF assms(1) effect(1)] assms(1)
  have "cells V k = Some e \<Longrightarrow> \<exists>z. e = (RZset z, None) \<and> dom z \<subseteq> M" for e
    by (simp add: zset_ok_def)
  from assms(4)[OF this effect(2)] show ?thesis by (simp add: zset_ok_def)
qed

lemma zset_ok_zadd:
  assumes "zset_ok view k M s" and "complies view rlater f (sp_zadd k m i)"
    and "f (redis_st s) = (x, r)" and "m \<in> M"
  shows "zset_ok view k M (s\<lparr>redis_st := r\<rparr>)"
  by (rule zset_ok_call[OF assms(1-3)])
    (use assms(4) in \<open>auto simp: sp_zadd_def split: option.splits rval.splits prod.splits\<close>)

lemma zset_ok_zrem:
  assumes "zset_ok view k M s" and "complies view rlater f (sp_zrem k m)"
    and "f (redis_st s) = (x, r)"
  shows "zset_ok view k M (s\<lparr>redis_st := r\<rparr>)"
  by (rule zset_ok_call[OF assms])
    (auto simp: sp_zrem_def split: option.splits rval.splits prod.splits if_splits dest: subsetD[OF _ domI])

lemma zset_key_footprint:
  "deadlines_key \<notin> footprint E U X" "escalations_key \<notin> footprint E U X"
  by (auto simp: footprint_def zset_key_other)

context redis_server
begin

lemma zset_step_ok:
  assumes "zset_steps E Z (redis_st s) r" and "deadlines_ok E view s" and "escalations_ok view s"
  shows "deadlines_ok E view (s\<lparr>redis_st := r\<rparr>) \<and> escalations_ok view (s\<lparr>redis_st := r\<rparr>)"
  using assms(1)
proof (cases rule: zset_steps.cases)
  case (st_zadd u score x)
  have "leaves escalations_key (view (redis_st s)) (view r)"
    by (rule leaves_call[OF zadd_law frame_zadd st_zadd(1)]) (use zset_key_other in auto)
  with zset_ok_zadd[OF assms(2)[unfolded deadlines_ok_def] zadd_law st_zadd(1) rangeI] assms(3)
  show ?thesis by (simp add: deadlines_ok_def escalations_ok_def zset_ok_leaves)
next
  case (st_zrem v x)
  have "leaves escalations_key (view (redis_st s)) (view r)"
    by (rule leaves_call[OF zrem_law frame_zrem st_zrem(1)]) (use zset_key_other in auto)
  with zset_ok_zrem[OF assms(2)[unfolded deadlines_ok_def] zrem_law st_zrem(1)] assms(3)
  show ?thesis by (simp add: deadlines_ok_def escalations_ok_def zset_ok_leaves)
next
  case (st_zadd_esc i score x)
  have "leaves deadlines_key (view (redis_st s)) (view r)"
    by (rule leaves_call[OF zadd_i64_law frame_zadd st_zadd_esc]) (use zset_key_other in auto)
  with zset_ok_zadd[OF assms(3)[unfolded escalations_ok_def] zadd_i64_law st_zadd_esc rangeI] assms(2)
  show ?thesis by (simp add: deadlines_ok_def escalations_ok_def zset_ok_leaves)
next
  case (st_zrem_esc i x)
  have "leaves deadlines_key (view (redis_st s)) (view r)"
    by (rule leaves_call[OF zrem_i64_law frame_zrem st_zrem_esc]) (use zset_key_other in auto)
  with zset_ok_zrem[OF assms(3)[unfolded escalations_ok_def] zrem_i64_law st_zrem_esc] assms(2)
  show ?thesis by (simp add: deadlines_ok_def escalations_ok_def zset_ok_leaves)
qed

end

text \<open>The sorted sets stay well formed under every step of the tasks.\<close>

definition queues_ok :: "('r, 'p) env \<Rightarrow> ('r \<Rightarrow> rview) \<Rightarrow> ('r, 'p) world \<Rightarrow> bool" where
  "queues_ok E view s \<longleftrightarrow> deadlines_ok E view s \<and> escalations_ok view s"

text \<open>They do not look at the rest of the state.\<close>

lemma queue_frames [simp]:
  "deadlines_ok E view (s\<lparr>pg_st := p\<rparr>) = deadlines_ok E view s"
  "deadlines_ok E view (s\<lparr>reads := n\<rparr>) = deadlines_ok E view s"
  "deadlines_ok E view (s\<lparr>windows := m\<rparr>) = deadlines_ok E view s"
  "escalations_ok view (s\<lparr>pg_st := p\<rparr>) = escalations_ok view s"
  "escalations_ok view (s\<lparr>reads := n\<rparr>) = escalations_ok view s"
  "escalations_ok view (s\<lparr>windows := m\<rparr>) = escalations_ok view s"
  "deadline_of E view (s\<lparr>pg_st := p\<rparr>) = deadline_of E view s"
  "deadline_of E view (s\<lparr>reads := n\<rparr>) = deadline_of E view s"
  "deadline_of E view (s\<lparr>windows := m\<rparr>) = deadline_of E view s"
  by (simp_all add: deadlines_ok_def escalations_ok_def deadline_of_def zset_ok_def zmembers_def fun_eq_iff)

context redis_server
begin

lemma step_queues_ok:
  assumes "redis_steps E U X Z (redis_st s) r" and "queues_ok E view s"
  shows "queues_ok E view (s\<lparr>redis_st := r\<rparr>)"
  using assms(1)
proof (cases rule: redis_steps.cases)
  case st_zset
  from zset_step_ok[OF this] assms(2) show ?thesis by (simp add: queues_ok_def)
next
  case st_plain
  with assms(2) show ?thesis
    unfolding queues_ok_def deadlines_ok_def escalations_ok_def
    by (intro conjI zset_ok_leaves plain_step_leaves[OF st_plain] zset_key_footprint) auto
qed

end

sublocale redis_server \<subseteq> queues: task_invariant E cfg U X Z "queues_ok E view" for cfg U X Z
proof
  show "queues_ok E view s \<Longrightarrow> redis_steps E U X Z (redis_st s) r \<Longrightarrow> queues_ok E view (s\<lparr>redis_st := r\<rparr>)"
    for s r by (rule step_queues_ok)
qed (simp_all add: queues_ok_def)

section \<open>What handling one transaction leaves alone\<close>

text \<open>
  From state \<open>s0\<close>, only the event ids \<open>U\<close> and the transactions \<open>X\<close> are concerned: all other
  keys, deadlines and windows are as they were.
\<close>

definition confined ::
  "('r, 'p) env \<Rightarrow> ('r \<Rightarrow> rview) \<Rightarrow> uuid set \<Rightarrow> uuid set \<Rightarrow> ('r, 'p) world \<Rightarrow> ('r, 'p) world \<Rightarrow> bool" where
  "confined E view U X s0 s \<longleftrightarrow> queues_ok E view s
     \<and> (\<forall>k. k \<notin> footprint E U X \<union> zset_keys \<longrightarrow> leaves k (view (redis_st s0)) (view (redis_st s)))
     \<and> (\<forall>tx. tx \<notin> X \<longrightarrow> windows s tx = windows s0 tx \<and> deadline_of E view s tx = deadline_of E view s0 tx)"

lemma zmembers_leaves:
  assumes "zset_ok view k M s" and "leaves k (view (redis_st s)) (view r)"
  shows "zmembers view k (s\<lparr>redis_st := r\<rparr>) = zmembers view k s"
  using assms(1)
proof (cases rule: zset_ok_cases)
  case 1
  with assms(2) show ?thesis by (auto simp: zmembers_def leaves_def)
next
  case 2
  with assms(2) show ?thesis by (auto simp: zmembers_def leaves_def)
qed

lemma zmembers_other:
  assumes "zset_ok view k M s" and "complies view rlater f R" and "f (redis_st s) = (x, r)"
    and "\<And>V x V'. cells V k = None \<or> (\<exists>z. cells V k = Some (RZset z, None)) \<Longrightarrow> R V x V' \<Longrightarrow>
           zset_of (cells V' k) m' = zset_of (cells V k) m'"
  shows "zmembers view k (s\<lparr>redis_st := r\<rparr>) m' = zmembers view k s m'"
  using assms(2,3)
proof (cases rule: complies_any)
  case (same V)
  then show ?thesis using zset_ok_later[OF assms(1) same(1)] by (simp add: zmembers_def)
next
  case (effect V y)
  from zset_ok_later[OF assms(1) effect(1)] have c: "cells V k = cells (view (redis_st s)) k" .
  with assms(1) have "cells V k = None \<or> (\<exists>z. cells V k = Some (RZset z, None))"
    by (cases rule: zset_ok_cases) auto
  from assms(4)[OF this effect(2)] c show ?thesis by (simp add: zmembers_def)
qed

context redis_server
begin

lemma step_deadline_of:
  assumes "redis_steps E U X Z (redis_st s) r" and "deadlines_ok E view s" and "tx \<notin> Z"
  shows "deadline_of E view (s\<lparr>redis_st := r\<rparr>) tx = deadline_of E view s tx"
proof -
  note ok = assms(2)[unfolded deadlines_ok_def]
  have quiet: ?thesis if "leaves deadlines_key (view (redis_st s)) (view r)"
    by (simp add: deadline_of_def zmembers_leaves[OF ok that])
  from assms(1) show ?thesis
  proof (cases rule: redis_steps.cases)
    case st_plain
    show ?thesis by (rule quiet[OF plain_step_leaves[OF st_plain zset_key_footprint(1)]])
  next
    case st_zset
    then show ?thesis
    proof (cases rule: zset_steps.cases)
      case (st_zadd u score x)
      with assms(3) have "uuid_str E tx \<noteq> uuid_str E u" by (auto simp: uuid_str_inject)
      then show ?thesis unfolding deadline_of_def
        by (intro zmembers_other[OF ok zadd_law st_zadd(1)]) (auto simp: sp_zadd_def zset_of_def)
    next
      case (st_zrem v x)
      with assms(3) have "uuid_str E tx \<noteq> v" by (auto simp: uuid_str_inject)
      then show ?thesis unfolding deadline_of_def
        by (intro zmembers_other[OF ok zrem_law st_zrem(1)])
          (auto simp: sp_zrem_def zset_of_def fun_eq_iff)
    next
      case (st_zadd_esc i score x)
      show ?thesis
        by (rule quiet[OF leaves_call[OF zadd_i64_law frame_zadd st_zadd_esc]])
          (use zset_key_other in auto)
    next
      case (st_zrem_esc i x)
      show ?thesis
        by (rule quiet[OF leaves_call[OF zrem_i64_law frame_zrem st_zrem_esc]])
          (use zset_key_other in auto)
    qed
  qed
qed

lemma confined_refl: "queues_ok E view s \<Longrightarrow> confined E view U X s s"
  by (simp add: confined_def leaves_refl)

end

sublocale redis_server \<subseteq> conf: task_invariant E cfg U X X "confined E view U X s0"
  for cfg U X s0
proof
  show "confined E view U X s0 (s\<lparr>redis_st := r\<rparr>)"
    if "confined E view U X s0 s" and step: "redis_steps E U X X (redis_st s) r" for s r
    using that step_queues_ok[OF step] step_leaves[OF step] step_deadline_of[OF step]
    unfolding confined_def by (auto intro: leaves_trans simp: queues_ok_def)
qed (auto simp: confined_def queues_ok_def)

section \<open>The server's clock\<close>

context redis_server
begin

lemma step_clock: "redis_steps E U X Z r r' \<Longrightarrow> clock (view r) \<le> clock (view r')"
proof -
  assume step: "redis_steps E U X Z r r'"
  have "[] \<notin> footprint E U X \<union> zset_keys"
    by (auto simp: footprint_def zset_keys_def dedup_key_def window_key_def sources_key_def
        deadlines_key_def escalations_key_def counter_key_def)
  from step_leaves[OF step this] show ?thesis by (simp add: leaves_def)
qed

end

sublocale redis_server \<subseteq> tick: task_invariant E cfg U X Z "\<lambda>s. c \<le> clock (view (redis_st s))"
  for cfg U X Z c
  by unfold_locales (auto dest: step_clock)

end
