(* ===== verification/Evaluation.thy ===== *)
theory Evaluation imports Task_Redis
begin

text \<open>
  Evaluation of the engine on the in-memory services by the simplifier: the definitions to unfold,
  as bundles. An event that completes its window is evaluated in stages: up to the verdict with
  \<open>event_eval\<close>, the verdict with
  \<open>verdict_eval\<close>, then the rest; that it succeeds does not depend on the counters.
\<close>

lemmas store_eval =
  run_atomic run_and_then run_attempt run_map_err run_ignore run_redis_call run_pg_call
  run_read_clock run_utc_now run_elapsed run_lift_result
  publish_event_def try_claim_event_def save_window_def delete_window_def add_deadline_def
  remove_deadline_def add_escalation_def try_register_source_def cleanup_sources_def publish_def
  record_match_result_def windows_insert_def windows_remove_def windows_entry_def dedup_key_def window_key_def sources_key_def deadlines_key_def
  escalations_key_def Let_def new_partial_def is_complete_def events_len_def source_all_def

lemmas event_eval = store_eval handle_event_def claimed_event_def add_to_window_def settle_window_def

lemmas verdict_eval =
  check_invariants_def build_details_def both_def overall_status_of_def merchant_or_first_def
  first_or_default_def first_value_def merchant_id_of_def missing_sources_def

lemmas engine_eval = event_eval verdict_eval record_event_processed_def
  handle_duplicate_def finalize_window_def degrade_window_def handle_timeout_def report_result_def
  persist_incident_def cleanup_window_def escalate_incident_def create_incident_def
  upsert_transaction_def upsert_reconciliation_details_def missing_incident_def duplicate_incident_def

lemmas mem_texts =
  mem_env_eval show_nat_eval digit_chars show_i64_def show_int_def parse_i64_def parse_nat_def
  is_digit_def digit_val_def

lemmas mem_statements =
  sql_upsert_transaction_def sql_upsert_detail_def sql_insert_incident_def
  sql_update_severity_def source_cast_def kind_cast_def pg_char_def varchar_def varchar_opt_def
  char_count_def is_cont_def

lemmas services_eval =
  mem_set_nx_px_def mem_set_px_def mem_setex_def mem_get_def mem_del_def mem_expire_def
  mem_incr_def mem_zadd_def mem_zrange_def mem_zrem_def mem_sadd_def mem_publish_def
  mem_lpush_def mem_ltrim_def mem_set_def mem_put_def mem_lookup_def mem_slice_def
  mem_texts mem_statements

lemmas scenario_eval =
  mem_start_def mem_cfg_def default_config_def mem_message_def sample_event_def

text \<open>
  Evaluation in the order of execution, for long runs. With \<open>ordered_congs\<close> the simplifier looks
  into neither the rest of a handler nor a finished Redis state: the state is rewritten once per
  command, and lookups (\<open>seek\<close>) go through the log of updates.
\<close>

lemma run_unfold: "p = q \<Longrightarrow> run p s = run q s"
  by simp

lemma run_branches:
  "run (Let a f) s = Let a (\<lambda>x. run (f x) s)"
  "run (if b then p else q) s = (if b then run p s else run q s)"
  "run (case x of None \<Rightarrow> p | Some y \<Rightarrow> g y) s = (case x of None \<Rightarrow> run p s | Some y \<Rightarrow> run (g y) s)"
  "run (case r of Inl e \<Rightarrow> u e | Inr y \<Rightarrow> v y) s = (case r of Inl e \<Rightarrow> run (u e) s | Inr y \<Rightarrow> run (v y) s)"
  by (simp_all split: option.split sum.split)

lemmas ordered_methods =
  handle_event_def[THEN run_unfold] claimed_event_def[THEN run_unfold]
  handle_duplicate_def[THEN run_unfold] add_to_window_def[THEN run_unfold]
  settle_window_def[THEN run_unfold] persist_incident_def[THEN run_unfold]
  publish_event_def[THEN run_unfold] try_claim_event_def[THEN run_unfold]
  save_window_def[THEN run_unfold] add_deadline_def[THEN run_unfold]
  add_escalation_def[THEN run_unfold] try_register_source_def[THEN run_unfold]
  publish_def[THEN run_unfold] record_event_processed_def[THEN run_unfold]
  create_incident_def[THEN run_unfold] upsert_transaction_def[THEN run_unfold]
  windows_insert_def[THEN run_unfold] windows_entry_def[THEN run_unfold]

definition seek :: "('a \<times> 'b) list \<Rightarrow> 'a \<Rightarrow> 'b option" where
  "seek l k = map_of l k"

lemma seek_simps:
  "seek [] k = None"
  "seek ((a, b) # l) k = (if a = k then Some b else seek l k)"
  "seek (AList.update a b l) k = (if a = k then Some b else seek l k)"
  "seek (AList.delete a l) k = (if a = k then None else seek l k)"
  by (simp_all add: seek_def AList.update_conv' AList.delete_conv')

lemma mem_log:
  "mem_lookup k \<lparr>m_clock = c, m_cells = l, m_sent = t, m_groups = g, m_new = n, m_pending = p\<rparr>
     = alive c (seek l k)"
  "mem_put k (Some x) \<lparr>m_clock = c, m_cells = l, m_sent = t, m_groups = g, m_new = n, m_pending = p\<rparr>
     = \<lparr>m_clock = c, m_cells = AList.update k x l, m_sent = t, m_groups = g, m_new = n, m_pending = p\<rparr>"
  "mem_put k None \<lparr>m_clock = c, m_cells = l, m_sent = t, m_groups = g, m_new = n, m_pending = p\<rparr>
     = \<lparr>m_clock = c, m_cells = AList.delete k l, m_sent = t, m_groups = g, m_new = n, m_pending = p\<rparr>"
  "mem_publish ch m \<lparr>m_clock = c, m_cells = l, m_sent = t, m_groups = g, m_new = n, m_pending = p\<rparr>
     = (Inr 1, \<lparr>m_clock = c, m_cells = l, m_sent = t @ [(ch, m)], m_groups = g, m_new = n, m_pending = p\<rparr>)"
  by (simp_all add: mem_lookup_def mem_put_def mem_publish_def seek_def)

lemma run_cong: "s = t \<Longrightarrow> run p s = run p t"
  by simp

lemma seek_cong: "k = k' \<Longrightarrow> seek l k = seek l k'"
  by simp

lemma redis_cong:
  "\<lparr>m_clock = c, m_cells = l, m_sent = t, m_groups = g, m_new = n, m_pending = p\<rparr>
     = \<lparr>m_clock = c, m_cells = l, m_sent = t, m_groups = g, m_new = n, m_pending = p\<rparr>"
  by (rule refl)

lemmas state_congs = seek_cong redis_cong
lemmas ordered_congs = let_weak_cong run_cong prod.case_cong_weak state_congs

lemmas mem_commands =
  mem_set_nx_px_def mem_set_px_def mem_setex_def mem_get_def mem_del_def mem_expire_def
  mem_incr_def mem_zadd_def mem_zrange_def mem_zrem_def mem_sadd_def mem_lpush_def mem_ltrim_def
  mem_set_def mem_slice_def

lemmas log_eval = mem_commands mem_log seek_simps alive_def mem_texts mem_statements

lemmas ordered_eval =
  run_atomic run_and_then run_attempt run_map_err run_ignore run_redis_call run_pg_call
  run_read_clock run_utc_now run_elapsed run_lift_result run_branches run.simps(1) ordered_methods
  dedup_key_def window_key_def sources_key_def deadlines_key_def escalations_key_def Let_def
  new_partial_def is_complete_def events_len_def source_all_def duplicate_incident_def

end
