(* ===== verification/Event_Claims.thy ===== *)
theory Event_Claims imports Evaluation
begin

text \<open>
  Deduplication: what the claim of an event id, \<open>try_claim_event\<close>, promises to
  \<open>handle_event\<close>, whatever the other tasks do in the meantime.
\<close>

context redis_server
begin

lemma claim_granted:
  assumes "run (try_claim_event E u ttl) s = (Inr True, s1)"
  shows "claim_held E view u (clock (view (redis_st s)) + uint ttl) s1" and "windows s1 = windows s"
proof -
  from assms obtain x r where r: "set_nx_px (rds E) (dedup_key E u) ''1'' ttl (redis_st s) = (Inr x, r)"
    "s1 = s\<lparr>redis_st := r\<rparr>" "x \<noteq> None"
    unfolding try_claim_event_def run_and_then_Inr run_rcall_Inr by (auto simp: run_simps)
  from set_nx_px_law r(1) obtain V where "rlater (view (redis_st s)) V"
    "sp_set_nx_px (dedup_key E u) ''1'' ttl V x (view r)"
    by (rule complies_ok)
  with r show "claim_held E view u (clock (view (redis_st s)) + uint ttl) s1" "windows s1 = windows s"
    by (auto simp: claim_held_def sp_set_nx_px_def rlater_def split: if_splits)
qed

text \<open>While the claim is held, another attempt is refused and changes nothing.\<close>

lemma claim_refused:
  assumes "claim_held E view u T s"
    and "set_nx_px (rds E) (dedup_key E u) v ttl (redis_st s) = (x, r)" and "clock (view r) < T"
  shows "(x = Inr None \<or> (\<exists>e. x = Inl e)) \<and> rlater (view (redis_st s)) (view r)"
proof -
  have present: "cells V (dedup_key E u) \<noteq> None"
    if "rlater (view (redis_st s)) V" and "clock V < T" for V
    using assms(1) that by (auto simp: claim_held_def rlater_def unexpired_def)
  have late: "clock V = clock (view r)" if "sp_set_nx_px (dedup_key E u) v ttl V y (view r)" for V y
    using that by (auto simp: sp_set_nx_px_def split: if_splits)
  show ?thesis
  proof (cases x)
    case (Inr y)
    with set_nx_px_law assms(2) obtain V where V: "rlater (view (redis_st s)) V"
      "sp_set_nx_px (dedup_key E u) v ttl V y (view r)"
      by (metis complies_ok)
    with present[OF V(1)] late[OF V(2)] assms(3) Inr show ?thesis by (auto simp: sp_set_nx_px_def)
  next
    case (Inl e)
    from set_nx_px_law assms(2) have "rlater (view (redis_st s)) (view r)"
    proof (cases rule: complies_any)
      case (same V)
      then show ?thesis by simp
    next
      case (effect V y)
      with present[OF effect(1)] late[OF effect(2)] assms(3) show ?thesis
        by (auto simp: sp_set_nx_px_def)
    qed
    with Inl show ?thesis by simp
  qed
qed

end

text \<open>What a task did when it found nothing to do: no window, no row, no message.\<close>

definition untouched :: "('r \<Rightarrow> rview) \<Rightarrow> ('r, 'p) world \<Rightarrow> ('r, 'p) world \<Rightarrow> bool" where
  "untouched view s s' \<longleftrightarrow> windows s' = windows s \<and> pg_st s' = pg_st s
     \<and> rlater (view (redis_st s)) (view (redis_st s'))"

context redis_server
begin

lemma handle_event_claimed:
  assumes "claim_held E view u T s" and "event_id (sm_event msg) = u" and "windows_ok s"
    and "run (handle_event E cfg msg) s = (res, s')" and "clock (view (redis_st s')) < T"
  shows "(res = Inr () \<or> (\<exists>e. res = Inl (Reconciler (Redis e)))) \<and> untouched view s s'"
proof -
  let ?ttl = "reconciler_dedup_window_ms cfg"
  obtain x r where r: "set_nx_px (rds E) (dedup_key E u) ''1'' ?ttl (redis_st s) = (x, r)"
    by (cases "set_nx_px (rds E) (dedup_key E u) ''1'' ?ttl (redis_st s)")
  let ?t = "s\<lparr>redis_st := r\<rparr>"
  have claim: "run (lift (try_claim_event E u ?ttl)) s
      = (case x of Inl e \<Rightarrow> Inl (Reconciler (Redis e)) | Inr y \<Rightarrow> Inr (y \<noteq> None), ?t)"
    by (simp add: try_claim_event_def run_simps r split: sum.splits)
  show ?thesis
  proof (cases "clock (view r) < T")
    case True
    from claim_refused[OF assms(1) r True] claim assms(2,4) show ?thesis
      by (auto simp: handle_event_def Let_def run_simps untouched_def)
  next
    case False
    have "s' = ?t \<or> run (claimed_event E cfg (sm_event msg)) ?t = (res, s')"
      using claim assms(2,4)
      by (auto simp: handle_event_def Let_def run_and_then run.simps(1) split: sum.splits if_splits prod.splits)
    then have "clock (view r) \<le> clock (view (redis_st s'))"
    proof
      assume "run (claimed_event E cfg (sm_event msg)) ?t = (res, s')"
      from tick.run_keeps(1)[OF tick.safe_claimed_event[OF UNIV_I UNIV_I] _ _ this] assms(3)
      show ?thesis by (simp add: windows_ok_simps)
    qed simp
    with False assms(5) show ?thesis by simp
  qed
qed

lemma claimed_once:
  assumes "windows_ok s" and "run (try_claim_event E u ttl) s = (Inr True, s1)"
    and "interleave\<^sup>*\<^sup>* (ps, s1) (ps', s2)" and "\<forall>p \<in> set ps. engine_task E cfg p"
    and "event_id (sm_event msg) = u" and "run (handle_event E cfg msg) s2 = (res, s3)"
    and "clock (view (redis_st s3)) < clock (view (redis_st s)) + uint ttl"
  shows "(res = Inr () \<or> (\<exists>e. res = Inl (Reconciler (Redis e)))) \<and> untouched view s2 s3"
proof -
  note granted = claim_granted[OF assms(2)]
  have "windows_ok s1" using assms(1) granted(2) by (simp add: windows_ok_def)
  with granted(1) have "claim_held E view u (clock (view (redis_st s)) + uint ttl) s2 \<and> windows_ok s2"
    by (intro held.interleaving_keeps[OF assms(3,4)]) simp_all
  then show ?thesis
    by (intro handle_event_claimed[OF _ assms(5) _ assms(6,7)]) simp_all
qed

lemma failed_once:
  assumes "windows_ok s"
    and "run (try_claim_event E (event_id (sm_event msg)) (reconciler_dedup_window_ms cfg)) s = (Inr True, t)"
    and "run (handle_event E cfg msg) s = (Inl e, s1)" and "run (handle_event E cfg msg) s1 = (res, s2)"
    and "clock (view (redis_st s2)) < clock (view (redis_st s)) + uint (reconciler_dedup_window_ms cfg)"
  shows "(res = Inr () \<or> (\<exists>e. res = Inl (Reconciler (Redis e)))) \<and> untouched view s1 s2"
proof -
  note granted = claim_granted[OF assms(2)]
  have rest: "run (claimed_event E cfg (sm_event msg)) t = (Inl e, s1)"
    using assms(3) by (simp add: handle_event_def Let_def run_and_then run_map_err assms(2))
  have "windows_ok t" using assms(1) granted(2) by (simp add: windows_ok_def)
  note kept = held.run_keeps[OF held.safe_claimed_event[OF UNIV_I UNIV_I] granted(1) this rest]
  show ?thesis by (rule handle_event_claimed[OF kept(1) refl kept(2) assms(4,5)])
qed

end

section \<open>Properties\<close>

text \<open>C2. At most once: once the claim of an event id has been granted, whatever the other tasks do
  in the meantime and in whatever order, handling a message with the same event id before the
  deduplication window of the claim is over does nothing: no window, no row, no key and no published
  message changes, and the outcome is \<open>Ok\<close> unless Redis failed.\<close>

theorem claimed_event_handled_once:
  assumes "redis_server E view dbl" and "windows_ok s"
    and "run (try_claim_event E u ttl) s = (Inr True, s1)"
    and "interleave\<^sup>*\<^sup>* (ps, s1) (ps', s2)" and "\<forall>p \<in> set ps. engine_task E cfg p"
    and "event_id (sm_event msg) = u" and "run (handle_event E cfg msg) s2 = (res, s3)"
    and "clock (view (redis_st s3)) < clock (view (redis_st s)) + uint ttl"
  shows "(res = Inr () \<or> (\<exists>e. res = Inl (Reconciler (Redis e)))) \<and> untouched view s2 s3"
  by (rule redis_server.claimed_once[OF assms])

text \<open>The claim of event 1 on the in-memory server, a timer tick, and the event again.\<close>

definition claim_task :: "(mem_redis, pg_tables, anyhow, unit) io" where
  "claim_task = handle_timeout mem_env mem_cfg 7"

theorem claimed_event_handled_once_witness:
  "untouched mem_view (snd (run (try_claim_event mem_env 1 600000) mem_start))
     (snd (run (handle_event mem_env mem_cfg (mem_message 1 Bank 5 0))
             (snd (run (try_claim_event mem_env 1 600000) mem_start))))"
proof -
  let ?s1 = "snd (run (try_claim_event mem_env 1 600000) mem_start)"
  let ?m = "mem_message 1 Bank 5 0"
  let ?r = "run (handle_event mem_env mem_cfg ?m) ?s1"
  let ?sched = "schedule [0] ([claim_task], ?s1)"
  have ok: "windows_ok mem_start" by (simp add: windows_ok_def mem_start_def)
  have granted: "run (try_claim_event mem_env 1 600000) mem_start = (Inr True, ?s1)"
    by (simp add: prod_eq_iff engine_eval services_eval scenario_eval)
  have moved: "snd ?sched = ?s1"
    by (simp add: claim_task_def engine_eval services_eval scenario_eval atomic_def)
  have steps: "interleave\<^sup>*\<^sup>* ([claim_task], ?s1) (fst ?sched, ?s1)"
    using schedule_interleave[of "([claim_task], ?s1)" "[0]"] by (metis moved prod.collapse)
  have task: "\<forall>p \<in> set [claim_task]. engine_task mem_env mem_cfg p"
    by (simp add: claim_task_def engine_task.intros)
  have ident: "event_id (sm_event ?m) = 1" by (simp add: mem_message_def)
  have early: "clock (mem_view (redis_st (snd ?r))) < clock (mem_view (redis_st mem_start)) + uint (600000 :: u64)"
    by (simp add: engine_eval services_eval scenario_eval)
  from claimed_event_handled_once[OF mem.redis_server_axioms ok granted steps task ident
      surjective_pairing early]
  show ?thesis by simp
qed

text \<open>C24. Lost on failure: an event whose handling failed after its id was claimed is not handled
  again within the deduplication window. A redelivered message is answered \<open>Ok\<close> (and would be
  acknowledged) without any effect, although the consumer logs that it will be retried.\<close>

theorem failed_event_not_retried:
  assumes "redis_server E view dbl" and "windows_ok s"
    and "run (try_claim_event E (event_id (sm_event msg)) (reconciler_dedup_window_ms cfg)) s = (Inr True, t)"
    and "run (handle_event E cfg msg) s = (Inl e, s1)" and "run (handle_event E cfg msg) s1 = (res, s2)"
    and "clock (view (redis_st s2)) < clock (view (redis_st s)) + uint (reconciler_dedup_window_ms cfg)"
  shows "(res = Inr () \<or> (\<exists>e. res = Inl (Reconciler (Redis e)))) \<and> untouched view s1 s2"
  by (rule redis_server.failed_once[OF assms])

text \<open>The in-memory server with its \<open>ZADD\<close> failing.\<close>

definition no_zadd :: "(mem_redis, pg_tables) env" where
  "no_zadd = mem_env\<lparr>rds := mem_rds\<lparr>zadd := (\<lambda>k m i r. (Inl ''IOERR'', r))\<rparr>\<rparr>"

lemma no_zadd_simps [simp]:
  "rds no_zadd = mem_rds\<lparr>zadd := (\<lambda>k m i r. (Inl ''IOERR'', r))\<rparr>" "pgs no_zadd = mem_pgs"
  "uuid_str no_zadd = uuid_str mem_env" "uuid_parse no_zadd = uuid_parse mem_env"
  "utc_millis no_zadd = utc_millis mem_env"
  by (simp_all add: no_zadd_def)

lemma no_zadd_server: "redis_server no_zadd mem_view (\<lambda>i. i)"
proof -
  have "complies mem_view rlater (\<lambda>r. (Inl ''IOERR'', r)) R" for R :: "rview \<Rightarrow> unit \<Rightarrow> rview \<Rightarrow> bool"
    by (rule mem_complies) auto
  then show ?thesis
    by unfold_locales
      (simp_all add: mem_uuid_round_trip mem_set_laws mem_read_laws mem_cell_laws mem_publish_law
        mem_zset_laws mem_zrange_law mem_zrange_i64_law mem_ltrim_law mem_stream_laws)
qed

theorem failed_event_not_retried_witness:
  "\<exists>s1. run (handle_event no_zadd mem_cfg (mem_message 1 Bank 5 0)) mem_start
        = (Inl (Reconciler (Redis ''IOERR'')), s1)
     \<and> untouched mem_view s1 (snd (run (handle_event no_zadd mem_cfg (mem_message 1 Bank 5 0)) s1))"
proof -
  let ?m = "mem_message 1 Bank 5 0"
  let ?s1 = "snd (run (handle_event no_zadd mem_cfg ?m) mem_start)"
  let ?s2 = "snd (run (handle_event no_zadd mem_cfg ?m) ?s1)"
  have ok: "windows_ok mem_start" by (simp add: windows_ok_def mem_start_def)
  have granted: "run (try_claim_event no_zadd (event_id (sm_event ?m)) (reconciler_dedup_window_ms mem_cfg))
      mem_start = (Inr True, snd (run (try_claim_event no_zadd (event_id (sm_event ?m))
        (reconciler_dedup_window_ms mem_cfg)) mem_start))"
    by (simp add: prod_eq_iff engine_eval services_eval scenario_eval)
  have first: "run (handle_event no_zadd mem_cfg ?m) mem_start = (Inl (Reconciler (Redis ''IOERR'')), ?s1)"
    by (simp add: prod_eq_iff engine_eval services_eval scenario_eval)
  have early: "clock (mem_view (redis_st ?s2)) < clock (mem_view (redis_st mem_start))
      + uint (reconciler_dedup_window_ms mem_cfg)"
    by (simp add: engine_eval services_eval scenario_eval)
  from failed_event_not_retried[OF no_zadd_server ok granted first surjective_pairing early]
  have "untouched mem_view ?s1 ?s2" by simp
  with first show ?thesis by (intro exI[of _ ?s1] conjI)
qed

end
