(* ===== verification/Window_Lifecycle.thy ===== *)
theory Window_Lifecycle imports Evaluation
begin

text \<open>
  The life of a window on a documented Redis server: finalising and timing out close it everywhere
  (map, saved copy, deadline, registered sources), and an event that is handled leaves its window with a
  deadline if it had one or is the first.
\<close>

definition window_closed ::
  "('r, 'p) env \<Rightarrow> ('r \<Rightarrow> rview) \<Rightarrow> uuid \<Rightarrow> ('r, 'p) world \<Rightarrow> bool" where
  "window_closed E view tx s \<longleftrightarrow> windows s tx = None \<and> deadline_of E view s tx = None
     \<and> cells (view (redis_st s)) (window_key E tx) = None
     \<and> cells (view (redis_st s)) (sources_key E tx) = None"

text \<open>Every open window has a deadline, without which the timer never looks at it.\<close>

definition windows_due :: "('r, 'p) env \<Rightarrow> ('r \<Rightarrow> rview) \<Rightarrow> ('r, 'p) world \<Rightarrow> bool" where
  "windows_due E view s \<longleftrightarrow> (\<forall>tx. windows s tx \<noteq> None \<longrightarrow> deadline_of E view s tx \<noteq> None)"

section \<open>From invariants to triples\<close>

lemma keeps_hoare: "keeps I Q p \<Longrightarrow> hoare I p (\<lambda>x s. I s \<and> Q x) (\<lambda>_. I)"
  by (rule hoareI) (auto dest: keeps_run)

lemma hoare_run: "hoare P p Q F \<Longrightarrow> P s \<Longrightarrow> run p s = (Inr x, s') \<Longrightarrow> Q x s'"
  by (rule hoare_Inr)

context task_invariant
begin

lemma safe_hoare: "safe p \<Longrightarrow> hoare inv p (\<lambda>_. inv) (\<lambda>_ _. True)"
  by (rule hoare_post[OF keeps_hoare]) auto

lemma safe_first:
  "safe p \<Longrightarrow> (\<And>x. hoare inv (f x) Q (\<lambda>_ _. True)) \<Longrightarrow> hoare inv (and_then p f) Q (\<lambda>_ _. True)"
  by (rule hoare_and_then[OF safe_hoare])

end

section \<open>Closing a window\<close>

context redis_server
begin

lemma del_step:
  assumes "run (rcall (del (rds E) k)) s = (Inr x, s')"
  shows "cells (view (redis_st s')) k = None"
    and "k' \<noteq> k \<Longrightarrow> leaves k' (view (redis_st s)) (view (redis_st s'))"
    and "windows s' = windows s" and "pg_st s' = pg_st s"
proof -
  from assms obtain r where r: "del (rds E) k (redis_st s) = (Inr x, r)" "s' = s\<lparr>redis_st := r\<rparr>"
    unfolding run_rcall_Inr by blast
  from del_law r(1) obtain V where "sp_del k V x (view r)" by (rule complies_ok)
  with r(2) show "cells (view (redis_st s')) k = None" "windows s' = windows s" "pg_st s' = pg_st s"
    by (simp_all add: sp_del_def)
  show "leaves k' (view (redis_st s)) (view (redis_st s'))" if "k' \<noteq> k"
    using leaves_call[OF del_law frame_del r(1)] that r(2) by simp
qed

lemma remove_deadline_step:
  assumes "run (remove_deadline E tx) s = (Inr (), s')"
  shows "k \<noteq> deadlines_key \<Longrightarrow> leaves k (view (redis_st s)) (view (redis_st s'))"
    and "windows s' = windows s" and "pg_st s' = pg_st s"
proof -
  from assms obtain x r where r: "zrem (rds E) deadlines_key (uuid_str E tx) (redis_st s) = (Inr x, r)"
    "s' = s\<lparr>redis_st := r\<rparr>"
    unfolding remove_deadline_def run_and_then_Inr run_rcall_Inr by (auto simp: run_simps)
  then show "windows s' = windows s" "pg_st s' = pg_st s" by simp_all
  show "leaves k (view (redis_st s)) (view (redis_st s'))" if "k \<noteq> deadlines_key"
    using leaves_call[OF zrem_law frame_zrem r(1)] that r(2) by simp
qed

lemma window_keys_differ:
  "window_key E tx \<noteq> deadlines_key" "window_key E tx \<noteq> sources_key E tx"
  "deadlines_key \<noteq> window_key E tx" "deadlines_key \<noteq> sources_key E tx"
  by (simp_all add: window_key_def deadlines_key_def sources_key_def)

lemma leaves_deadlines:
  assumes "deadlines_ok E view s" and "leaves deadlines_key (view (redis_st s)) (view (redis_st s'))"
  shows "deadlines_ok E view s'" and "deadline_of E view s' = deadline_of E view s"
  using zset_ok_leaves[OF assms(1)[unfolded deadlines_ok_def] assms(2)]
    zmembers_leaves[OF assms(1)[unfolded deadlines_ok_def] assms(2)]
  by (simp_all add: deadlines_ok_def deadline_of_def zset_ok_def zmembers_def fun_eq_iff)

lemma run_lift_Inr: "run (map_err h p) s = (Inr x, s') \<longleftrightarrow> run p s = (Inr x, s')"
  by (cases "run p s") (auto simp: run_map_err map_sum_def split: sum.splits)

lemma cleanup_closes:
  assumes "deadlines_ok E view s" and "run (cleanup_window E tx) s = (Inr (), s')"
  shows "window_closed E view tx s'" and "deadlines_ok E view s'"
    and "windows s' = (windows s)(tx := None)" and "pg_st s' = pg_st s"
proof -
  let ?s0 = "s\<lparr>windows := (windows s)(tx := None)\<rparr>"
  from assms(2) obtain s1 s2 where
    del: "run (rcall (del (rds E) (window_key E tx))) ?s0 = (Inr (), s1)" and
    rem: "run (remove_deadline E tx) s1 = (Inr (), s2)" and
    src: "run (rcall (del (rds E) (sources_key E tx))) s2 = (Inr (), s')"
    unfolding cleanup_window_def delete_window_def cleanup_sources_def windows_remove_def
      run_and_then_Inr run_lift_Inr run_atomic by auto
  note d = del_step[OF del] and r = remove_deadline_step[OF rem] and c = del_step[OF src]
  have ok1: "deadlines_ok E view s1"
    by (rule leaves_deadlines(1)[OF _ d(2)]) (simp_all add: assms(1) window_keys_differ)
  note ok2 = dl.remove_law[OF ok1 rem]
  note after = leaves_deadlines[OF conjunct1[OF ok2] c(2)[OF window_keys_differ(4)]]
  show "deadlines_ok E view s'" by (rule after)
  show "windows s' = (windows s)(tx := None)" "pg_st s' = pg_st s"
    using d(3,4) r(2,3) c(3,4) by simp_all
  have "cells (view (redis_st s')) (window_key E tx) = None"
    by (rule leaves_absent[OF c(2) leaves_absent[OF r(1) d(1)]]) (simp_all add: window_keys_differ)
  then show "window_closed E view tx s'"
    using d(3) r(2) c(1,3) after(2) ok2 by (simp add: window_closed_def)
qed

lemma cleanup_hoare:
  "hoare (\<lambda>s. queues_ok E view s \<and> windows_ok s) (cleanup_window E tx)
     (\<lambda>_. window_closed E view tx) (\<lambda>_ _. True)"
  by (rule hoareI) (auto simp: queues_ok_def intro: cleanup_closes(1))

lemma finalize_closes:
  "hoare (\<lambda>s. queues_ok E view s \<and> windows_ok s) (finalize_window E cfg w)
     (\<lambda>_. window_closed E view (pt_transaction_id w)) (\<lambda>_ _. True)"
  unfolding finalize_window_def Let_def
  by (intro queues.safe_first cleanup_hoare
      queues.safe_rules queues.safe_database queues.safe_report)

lemma degrade_closes:
  "hoare (\<lambda>s. queues_ok E view s \<and> windows_ok s) (degrade_window E cfg tx w)
     (\<lambda>_. window_closed E view tx) (\<lambda>_ _. True)"
  unfolding degrade_window_def Let_def
  by (intro queues.safe_first cleanup_hoare
      queues.safe_rules queues.safe_database queues.safe_persist)

end

section \<open>Open windows have deadlines\<close>

text \<open>What does not touch deadlines keeps that of \<open>tx\<close>; what does not touch windows either keeps
  that the window of \<open>tx\<close> has one.\<close>

definition has_deadline :: "('r, 'p) env \<Rightarrow> ('r \<Rightarrow> rview) \<Rightarrow> uuid \<Rightarrow> ('r, 'p) world \<Rightarrow> bool" where
  "has_deadline E view tx s \<longleftrightarrow> queues_ok E view s \<and> deadline_of E view s tx \<noteq> None"

definition due_if_open :: "('r, 'p) env \<Rightarrow> ('r \<Rightarrow> rview) \<Rightarrow> uuid \<Rightarrow> ('r, 'p) world \<Rightarrow> bool" where
  "due_if_open E view tx s \<longleftrightarrow>
     queues_ok E view s \<and> (windows s tx = None \<or> deadline_of E view s tx \<noteq> None)"

lemma queues_ok_frames [simp]:
  "queues_ok E view (s\<lparr>pg_st := p\<rparr>) = queues_ok E view s"
  "queues_ok E view (s\<lparr>reads := n\<rparr>) = queues_ok E view s"
  "queues_ok E view (s\<lparr>windows := m\<rparr>) = queues_ok E view s"
  by (simp_all add: queues_ok_def)

context redis_server
begin

lemma step_keeps_deadline:
  assumes "redis_steps E U X {} (redis_st s) r" and "queues_ok E view s"
  shows "queues_ok E view (s\<lparr>redis_st := r\<rparr>)"
    and "deadline_of E view (s\<lparr>redis_st := r\<rparr>) tx = deadline_of E view s tx"
  using step_queues_ok[OF assms] step_deadline_of[OF assms(1)] assms(2) by (simp_all add: queues_ok_def)

end

sublocale redis_server \<subseteq> keepdl: task_invariant E cfg U X "{}" "has_deadline E view tx" for cfg U X tx
  by unfold_locales (simp_all add: has_deadline_def step_keeps_deadline)

sublocale redis_server \<subseteq> keepdue: task_invariant E cfg U "{}" "{}" "due_if_open E view tx" for cfg U tx
  by unfold_locales (auto simp: due_if_open_def step_keeps_deadline)

context redis_server
begin

abbreviation due_inv :: "uuid \<Rightarrow> ('r, 'p) world \<Rightarrow> bool" where
  "due_inv tx s \<equiv> due_if_open E view tx s \<and> windows_ok s"

abbreviation deadline_inv :: "uuid \<Rightarrow> ('r, 'p) world \<Rightarrow> bool" where
  "deadline_inv tx s \<equiv> has_deadline E view tx s \<and> windows_ok s"

lemma deadline_due: "deadline_inv tx s \<Longrightarrow> due_inv tx s"
  by (simp add: has_deadline_def due_if_open_def)

lemma finalize_due:
  assumes "pt_transaction_id w = tx"
  shows "hoare (\<lambda>s. queues_ok E view s \<and> windows_ok s) (finalize_window E cfg w) (\<lambda>_. due_inv tx) (\<lambda>_ _. True)"
proof (rule hoareI)
  fix s s' x
  assume P: "queues_ok E view s \<and> windows_ok s" and run: "run (finalize_window E cfg w) s = (Inr x, s')"
  note kept = queues.run_keeps[OF queues.safe_finalize[OF UNIV_I UNIV_I] _ _ run]
  from hoare_Inr[OF finalize_closes P run] assms have "windows s' tx = None"
    by (simp add: window_closed_def)
  with kept P show "due_inv tx s'" by (simp add: due_if_open_def)
qed simp

lemma settle_due:
  assumes "window_ok tx w"
  shows "hoare (deadline_inv tx) (settle_window E cfg tx now w) (\<lambda>_. due_inv tx) (\<lambda>_ _. True)"
proof (cases "is_complete w (expected_sources_count cfg)")
  case True
  have ident: "pt_transaction_id w = tx" using assms by (rule window_ok_simps)
  have fin: "hoare (deadline_inv tx) (finalize_window E cfg (w\<lparr>processing_time_micros := t\<rparr>))
      (\<lambda>_. due_inv tx) (\<lambda>_ _. True)" for t
    by (rule hoare_pre[OF finalize_due]) (simp_all add: ident has_deadline_def)
  show ?thesis
    unfolding settle_window_def Let_def if_P[OF True]
    by (intro keepdl.safe_first keepdl.safe_database hoare_and_then[OF fin] hoare_ok)
next
  case False
  have ident: "pt_transaction_id w = tx" using assms by (rule window_ok_simps)
  show ?thesis
    unfolding settle_window_def Let_def if_not_P[OF False]
    by (intro keepdl.safe_first keepdl.safe_database keepdl.safe_stores(2)[OF UNIV_I window_ok_simps(4)[OF assms]]
        keepdl.safe_stores keepdl.safe_map_err keepdl.safe_insert[OF UNIV_I] window_ok_simps(4)
        assms hoare_ok; simp add: deadline_due)
qed

lemma events_len_new: "events_len (events (new_partial tx now timeout)) = 0"
  by (simp add: events_len_def new_partial_def)

lemma add_deadline_gives:
  "hoare (\<lambda>s. queues_ok E view s \<and> windows_ok s) (lift (add_deadline E tx d))
     (\<lambda>_. deadline_inv tx) (\<lambda>_ _. True)"
proof (rule hoareI)
  fix s s' x
  assume P: "queues_ok E view s \<and> windows_ok s" and run: "run (lift (add_deadline E tx d)) s = (Inr x, s')"
  from run have run': "run (add_deadline E tx d) s = (Inr (), s')" by (simp add: run_lift_Inr)
  have "queues_ok E view s' \<and> windows_ok s'"
    using queues.run_keeps[OF queues.safe_stores(4)[OF UNIV_I] _ _ run'] P by blast
  moreover have "deadline_of E view s' tx \<noteq> None"
    using dl.add_law[OF _ run'] P by (simp add: queues_ok_def)
  ultimately show "deadline_inv tx s'" by (simp add: has_deadline_def)
qed simp

text \<open>The window that \<open>handle_event\<close> finds is either empty, and gets its deadline, or has one.\<close>

lemma add_to_window_due:
  assumes "pe_transaction_id event = tx"
  shows "hoare (due_inv tx) (add_to_window E cfg event now) (\<lambda>_. due_inv tx) (\<lambda>_ _. True)"
  unfolding add_to_window_def Let_def assms
proof (rule hoare_and_then)
  let ?P = "\<lambda>found s. queues_ok E view s \<and> windows_ok s \<and> window_ok tx found
      \<and> (events_len (events found) = 0 \<or> deadline_of E view s tx \<noteq> None)"
  show "hoare (due_inv tx) (windows_entry tx (new_partial tx now (reconciler_timeout_ms cfg))) ?P (\<lambda>_ _. True)"
  proof (rule hoareI)
    fix s s' found
    assume inv: "due_inv tx s"
      and run: "run (windows_entry tx (new_partial tx now (reconciler_timeout_ms cfg))) s = (Inr found, s')"
    show "?P found s'"
    proof (cases "windows s tx")
      case None
      with inv run show ?thesis
        by (auto simp: windows_entry_def run_atomic due_if_open_def window_ok_simps events_len_new
            intro: windows_ok_simps)
    next
      case (Some w)
      with inv run show ?thesis
        by (auto simp: windows_entry_def run_atomic due_if_open_def windows_ok_def)
    qed
  qed simp
  fix found :: partial_transaction
  let ?w = "found\<lparr>events := (events found)(pe_source event \<mapsto> event)\<rparr>"
  let ?first = "if events_len (events found) = 0
      then and_then (lift (add_deadline E tx (deadline_ms ?w)))
             (\<lambda>_. emit E cfg (TransactionReceived tx (pe_source event) now))
      else ok ()"
  have opened: "hoare (?P found) ?first (\<lambda>_ s. deadline_inv tx s \<and> window_ok tx found) (\<lambda>_ _. True)"
  proof (cases "events_len (events found) = 0 \<and> window_ok tx found")
    case True
    have "hoare (?P found) (and_then (lift (add_deadline E tx (deadline_ms ?w)))
             (\<lambda>_. emit E cfg (TransactionReceived tx (pe_source event) now))) (\<lambda>_. deadline_inv tx) (\<lambda>_ _. True)"
      by (rule hoare_and_then[OF hoare_pre[OF add_deadline_gives]])
        (auto intro: keepdl.safe_hoare keepdl.safe_stores)
    with True show ?thesis by (simp add: hoare_def split: prod.splits sum.splits)
  next
    case False
    then show ?thesis by (auto simp: has_deadline_def hoare_def run.simps(1) split: if_splits)
  qed
  have rest: "hoare (deadline_inv tx) (and_then (windows_insert tx ?w)
        (\<lambda>_. and_then (lift (save_window E ?w))
        (\<lambda>_. and_then (settle_window E cfg tx now ?w)
        (\<lambda>logic_micros. and_then (elapsed E)
        (\<lambda>total_micros. ignore (record_event_processed E (source_name (pe_source event))
                total_micros logic_micros)))))) (\<lambda>_. due_inv tx) (\<lambda>_ _. True)"
    if w: "window_ok tx ?w"
    by (intro keepdl.safe_first hoare_and_then[OF settle_due[OF w]] keepdl.safe_insert[OF UNIV_I w]
        keepdl.safe_map_err keepdl.safe_stores(2)[OF UNIV_I w] keepdue.safe_first keepdue.safe_hoare
        keepdue.safe_database keepdue.safe_ignore keepdue.safe_record)
  show "hoare (?P found) (and_then ?first
        (\<lambda>_. and_then (windows_insert tx ?w)
        (\<lambda>_. and_then (lift (save_window E ?w))
        (\<lambda>_. and_then (settle_window E cfg tx now ?w)
        (\<lambda>logic_micros. and_then (elapsed E)
        (\<lambda>total_micros. ignore (record_event_processed E (source_name (pe_source event))
                total_micros logic_micros))))))) (\<lambda>_. due_inv tx) (\<lambda>_ _. True)"
  proof (cases "window_ok tx found")
    case True
    from window_ok_simps(3)[OF this assms] have "window_ok tx ?w" .
    from hoare_and_then[OF opened hoare_pre[OF rest[OF this]]] show ?thesis by simp
  next
    case False
    then show ?thesis by (simp add: hoare_def)
  qed
qed

lemma register_due:
  "hoare (due_inv tx) (lift (try_register_source E tx' src)) (\<lambda>_. due_inv tx) (\<lambda>_ _. True)"
proof -
  have step: "due_inv tx (s\<lparr>redis_st := r\<rparr>)"
    if "due_inv tx s" and "redis_steps E UNIV UNIV {} (redis_st s) r" for s r
    using step_keeps_deadline[OF that(2)] that(1) by (auto simp: due_if_open_def windows_ok_simps)
  have "keeps (due_inv tx) (\<lambda>_. True) (lift (try_register_source E tx' src))"
    unfolding try_register_source_def
    by (intro keeps_map_err keeps_and_then[where Q = "\<lambda>_. True"] keeps_redis_call keeps_ok TrueI step;
        auto intro: step_intros)
  from keeps_hoare[OF this] show ?thesis by (rule hoare_post) auto
qed

lemma handle_event_due:
  "hoare (due_inv (pe_transaction_id (sm_event msg))) (handle_event E cfg msg)
     (\<lambda>_. due_inv (pe_transaction_id (sm_event msg))) (\<lambda>_ _. True)"
proof -
  let ?tx = "pe_transaction_id (sm_event msg)"
  have dup: "hoare (due_inv ?tx) (handle_duplicate E cfg (sm_event msg)) (\<lambda>_. due_inv ?tx) (\<lambda>_ _. True)"
    unfolding handle_duplicate_def Let_def
    by (intro keepdue.safe_first keepdue.safe_map_err keepdue.safe_database keepdue.safe_persist
        keepdue.safe_hoare keepdue.safe_ignore keepdue.safe_record)
  have add: "hoare (due_inv ?tx) (add_to_window E cfg (sm_event msg) now) (\<lambda>_. due_inv ?tx) (\<lambda>_ _. True)"
    for now by (rule add_to_window_due) simp
  have claimed: "hoare (due_inv ?tx) (claimed_event E cfg (sm_event msg)) (\<lambda>_. due_inv ?tx) (\<lambda>_ _. True)"
    unfolding claimed_event_def
    by (intro keepdue.safe_first keepdue.safe_database hoare_and_then[OF register_due])
      (simp add: dup add)
  show ?thesis
    unfolding handle_event_def Let_def
    by (intro keepdue.safe_first keepdue.safe_map_err keepdue.safe_stores(1)[OF UNIV_I])
      (simp add: claimed hoare_ok)
qed

text \<open>Handling one transaction leaves the windows and deadlines of the others alone.\<close>

lemma handle_event_confined:
  assumes "queues_ok E view s" and "windows_ok s" and "run (handle_event E cfg msg) s = (res, s')"
  shows "confined E view {event_id (sm_event msg)} {pe_transaction_id (sm_event msg)} s s'"
proof -
  note safe = conf.safe_handle_event[OF singletonI singletonI singletonI]
  show ?thesis by (rule conf.run_keeps(1)[OF safe confined_refl[OF assms(1)] assms(2,3)])
qed

lemma handle_timeout_confined:
  assumes "queues_ok E view s" and "windows_ok s" and "run (handle_timeout E cfg tx) s = (res, s')"
  shows "confined E view {} {tx} s s'"
proof -
  note safe = conf.safe_handle_timeout[OF singletonI singletonI]
  show ?thesis by (rule conf.run_keeps(1)[OF safe confined_refl[OF assms(1)] assms(2,3)])
qed

lemma handle_timeout_closed:
  assumes "queues_ok E view s" and "windows_ok s" and "windows s tx \<noteq> None"
    and "run (handle_timeout E cfg tx) s = (Inr (), s')"
  shows "window_closed E view tx s'"
proof -
  from assms(3) obtain w where w: "windows s tx = Some w" by auto
  let ?s0 = "s\<lparr>windows := (windows s)(tx := None)\<rparr>"
  have inv: "queues_ok E view ?s0 \<and> windows_ok ?s0"
    using assms(1,2) by (auto intro: windows_ok_simps)
  have ident: "pt_transaction_id w = tx" using assms(2) w by (simp add: windows_ok_simps window_ok_simps)
  have "run (if is_complete w (expected_sources_count cfg) then finalize_window E cfg w
      else degrade_window E cfg tx w) ?s0 = (Inr (), s')"
    using assms(4) by (simp add: handle_timeout_def run_and_then windows_remove_def run_atomic w)
  then show ?thesis
    using hoare_Inr[OF finalize_closes inv] hoare_Inr[OF degrade_closes inv] ident
    by (auto split: if_splits)
qed

end

section \<open>Properties\<close>

text \<open>C8. A timeout that succeeds closes the window everywhere: it is gone from the map, and its saved
  copy, its deadline and its registered sources are gone from Redis; a second timeout of the same
  transaction then does nothing.\<close>

theorem timeout_closes_window:
  assumes "redis_server E view dbl" and "queues_ok E view s" and "windows_ok s"
    and "windows s tx \<noteq> None" and "run (handle_timeout E cfg tx) s = (Inr (), s')"
  shows "window_closed E view tx s' \<and> run (handle_timeout E cfg tx) s' = (Inr (), s')"
proof -
  have "window_closed E view tx s'" by (rule redis_server.handle_timeout_closed[OF assms])
  moreover from this have "run (handle_timeout E cfg tx) s' = (Inr (), s')"
    by (simp add: handle_timeout_def run_and_then windows_remove_def run_atomic run.simps(1)
        window_closed_def fun_upd_idem)
  ultimately show ?thesis by (rule conjI)
qed

text \<open>The in-memory server with one open window: the merchant's event has been handled.\<close>

definition one_event :: "(mem_redis, pg_tables) world" where
  "one_event = snd (run (handle_event mem_env mem_cfg (mem_message 1 Merchant 100 0)) mem_start)"

lemma mem_start_ok: "queues_ok mem_env mem_view mem_start" "windows_ok mem_start"
  "windows_due mem_env mem_view mem_start"
  by (simp_all add: queues_ok_def deadlines_ok_def escalations_ok_def zset_ok_def windows_ok_def
      windows_due_def mem_start_def mem_lookup_def)

lemma one_event_run:
  "run (handle_event mem_env mem_cfg (mem_message 1 Merchant 100 0)) mem_start = (Inr (), one_event)"
  by (simp add: one_event_def prod_eq_iff engine_eval services_eval scenario_eval)

text \<open>That state, written out.\<close>

lemma one_event_eval:
  "one_event =
     \<lparr>redis_st =
        \<lparr>m_clock = 0,
         m_cells =
           [(''dedup:event:1'', CStr ''1'', Some 600000),
            (''sources:7'', CSet [''merchant''], Some 60000),
            (''deadlines'', CZset [(''7'', 3010)], None),
            (''window:7'', CStr ''7'', Some 30000),
            (''metrics:events:total'', CStr ''1'', Some 3600000),
            (''source:last_seen:merchant'', CStr ''13'', Some 3600000),
            (''source:events:merchant'', CStr ''1'', None),
            (''metrics:latencies:total'', CList [''12''], None),
            (''metrics:latencies:logic'', CList [''11''], None)],
         m_sent = [(''reconciliation.events'', ''received''), (''reconciliation.events'', ''progress'')],
         m_groups = [], m_new = [], m_pending = []\<rparr>,
      pg_st = \<lparr>pg_now = 0, transactions = Map.empty, details = Map.empty, incidents = Map.empty,
              next_incident = 1\<rparr>,
      windows = [7 \<mapsto>
        \<lparr>pt_transaction_id = 7,
         events = [Merchant \<mapsto>
           \<lparr>event_id = 1, pe_transaction_id = 7, pe_source = Merchant, amount_minor = 100, fee_minor = 0,
            pe_currency = ''UZS'', timestamp_ms = 1735689600000, pe_tx_type = ''card'',
            pe_merchant_id = None\<rparr>],
         first_seen_at_ms = 1010, deadline_ms = 3010, processing_time_micros = 11\<rparr>],
      reads = 14\<rparr>"
  by (simp add: one_event_def engine_eval services_eval scenario_eval)

lemma one_event_ok: "queues_ok mem_env mem_view one_event" "windows_ok one_event"
  using mem.queues.run_keeps[OF mem.queues.safe_handle_event[OF UNIV_I UNIV_I UNIV_I] mem_start_ok(1,2)
      one_event_run] by simp_all

lemma one_event_open: "windows one_event 7 \<noteq> None"
  by (simp add: one_event_eval)

lemma one_event_timeout: "fst (run (handle_timeout mem_env mem_cfg 7) one_event) = Inr ()"
  by (simp add: one_event_eval engine_eval services_eval scenario_eval)

theorem timeout_closes_window_witness:
  "window_closed mem_env mem_view 7 (snd (run (handle_timeout mem_env mem_cfg 7) one_event))"
  using timeout_closes_window[OF mem.redis_server_axioms one_event_ok one_event_open]
    one_event_timeout by (metis prod.collapse)

text \<open>C23. Transactions do not disturb each other: handling an event, even one that fails halfway,
  changes no window and no deadline of another transaction and no key of Redis but the claim of the
  event, the saved window and the sources of its transaction, the two sorted sets and the counters;
  any other key only expires. The same holds for a timeout.\<close>

theorem transactions_are_isolated:
  assumes "redis_server E view dbl" and "queues_ok E view s" and "windows_ok s"
    and "run (handle_event E cfg msg) s = (res, s')" and "pe_transaction_id (sm_event msg) \<noteq> tx"
    and "k \<notin> footprint E {event_id (sm_event msg)} {pe_transaction_id (sm_event msg)} \<union> zset_keys"
  shows "windows s' tx = windows s tx \<and> deadline_of E view s' tx = deadline_of E view s tx
    \<and> leaves k (view (redis_st s)) (view (redis_st s'))"
  using redis_server.handle_event_confined[OF assms(1-4)] assms(5,6) by (auto simp: confined_def)

theorem transactions_are_isolated_witness:
  "windows one_event 8 = None \<and> deadline_of mem_env mem_view one_event 8 = None"
proof -
  have other: "pe_transaction_id (sm_event (mem_message 1 Merchant 100 0)) \<noteq> 8"
    by (simp add: scenario_eval)
  have key: "dedup_key mem_env 2 \<notin> footprint mem_env {event_id (sm_event (mem_message 1 Merchant 100 0))}
      {pe_transaction_id (sm_event (mem_message 1 Merchant 100 0))} \<union> zset_keys"
    by (rule redis_server.dedup_footprint[OF mem.redis_server_axioms]) (simp add: scenario_eval)
  have "windows mem_start 8 = None" "deadline_of mem_env mem_view mem_start 8 = None"
    by (simp_all add: mem_start_def deadline_of_def zmembers_def mem_lookup_def zset_of_def)
  with transactions_are_isolated[OF mem.redis_server_axioms mem_start_ok(1,2) one_event_run other key]
  show ?thesis by simp
qed

end
