(* ===== verification/Window_Race.thy ===== *)
theory Window_Race imports Window_Lifecycle
begin

text \<open>
  An execution on the in-memory services in which the timer overtakes the handler of an event: the
  window survives its own timeout without a deadline. The states on the way are written out.
\<close>

text \<open>
  The handler of the bank's event is interrupted after it has read the window; the timer's task for
  the same transaction runs to its end in between. \<open>mid_*\<close> are the states at those points.
\<close>

definition bank_event :: payment_event where
  "bank_event = sm_event (mem_message 2 Bank 100 0)"

definition bank_claim :: "(mem_redis, pg_tables, anyhow, bool) io" where
  "bank_claim = lift (try_claim_event mem_env 2 600000)"

definition bank_register :: "(mem_redis, pg_tables, anyhow, bool) io" where
  "bank_register = lift (try_register_source mem_env 7 Bank)"

definition mid_claimed :: "(mem_redis, pg_tables) world" where
  "mid_claimed = snd (run bank_claim one_event)"

definition mid_registered :: "(mem_redis, pg_tables) world" where
  "mid_registered = snd (run bank_register (mid_claimed\<lparr>reads := Suc (reads mid_claimed)\<rparr>))"

definition mid_timed_out :: "(mem_redis, pg_tables) world" where
  "mid_timed_out = snd (run (handle_timeout mem_env mem_cfg 7) mid_registered)"

lemma mid_runs:
  "run bank_claim one_event = (Inr True, mid_claimed)"
  "run bank_register (mid_claimed\<lparr>reads := Suc (reads mid_claimed)\<rparr>) = (Inr True, mid_registered)"
  "run (handle_timeout mem_env mem_cfg 7) mid_registered = (Inr (), mid_timed_out)"
  by (simp_all add: mid_claimed_def mid_registered_def mid_timed_out_def bank_claim_def
      bank_register_def one_event_eval prod_eq_iff engine_eval services_eval scenario_eval)

lemma mid_window: "windows mid_registered 7 = windows one_event 7"
  by (simp add: mid_claimed_def mid_registered_def bank_claim_def bank_register_def one_event_eval
      engine_eval services_eval scenario_eval)

lemma mid_clock: "reads mid_claimed = 14"
  by (simp add: mid_claimed_def bank_claim_def one_event_eval engine_eval services_eval scenario_eval)

text \<open>After the timeout: the transaction is degraded, its incident is open and due for escalation.\<close>

lemma mid_timed_out_eval:
  "mid_timed_out =
     \<lparr>redis_st =
        \<lparr>m_clock = 0,
         m_cells =
           [(''dedup:event:1'', CStr ''1'', Some 600000),
            (''metrics:events:total'', CStr ''1'', Some 3600000),
            (''source:last_seen:merchant'', CStr ''13'', Some 3600000),
            (''source:events:merchant'', CStr ''1'', None),
            (''metrics:latencies:total'', CList [''12''], None),
            (''metrics:latencies:logic'', CList [''11''], None),
            (''dedup:event:2'', CStr ''1'', Some 600000),
            (''incident_escalations'', CZset [(''1'', 11015)], None)],
         m_sent = [(''reconciliation.events'', ''received''), (''reconciliation.events'', ''progress''),
            (''reconciliation.events'', ''incident'')],
         m_groups = [], m_new = [], m_pending = []\<rparr>,
      pg_st =
        \<lparr>pg_now = 0,
         transactions = [7 \<mapsto>
           \<lparr>tr_status = St_degraded, tr_merchant_id = None, tr_tx_type = ''card'', tr_currency = ''UZS'',
            tr_created_at = 0, tr_updated_at = 0, tr_processing_time_ms = f64_zero\<rparr>],
         details = [(7, Merchant) \<mapsto>
           \<lparr>dr_amount_expected = None, dr_amount_actual = Some 100, dr_fee_expected = Some 0,
            dr_fee_actual = Some 0, dr_is_matched = False, dr_mismatch_reason = None,
            dr_received_at = 0\<rparr>],
         incidents = [1 \<mapsto>
           \<lparr>ir_transaction_id = 7, ir_type = MissingSource, ir_severity = 1,
            ir_description = txt_missing @ ''gateway, bank'' @ txt_window @ ''2000'' @ txt_ms,
            ir_status = Is_open, ir_created_at = 0, ir_escalated_at = None\<rparr>],
         next_incident = 2\<rparr>,
      windows = Map.empty, reads = 16\<rparr>"
  by (simp add: mid_timed_out_def mid_claimed_def mid_registered_def bank_claim_def
      bank_register_def one_event_eval engine_eval services_eval scenario_eval)

text \<open>The rest of the handler, from the window it has read.\<close>

definition bank_rest :: "partial_transaction \<Rightarrow> (mem_redis, pg_tables, anyhow, unit) io" where
  "bank_rest found =
     (let window = found\<lparr>events := (events found)(Bank \<mapsto> bank_event)\<rparr> in
      and_then (if events_len (events found) = 0 then
                  and_then (lift (add_deadline mem_env 7 (deadline_ms window))) (\<lambda>_.
                  emit mem_env mem_cfg (TransactionReceived 7 (pe_source bank_event) (1000 + of_nat (reads mid_claimed))))
                else ok ()) (\<lambda>_.
      and_then (windows_insert 7 window) (\<lambda>_.
      and_then (lift (save_window mem_env window)) (\<lambda>_.
      and_then (settle_window mem_env mem_cfg 7 (1000 + of_nat (reads mid_claimed)) window)
        (\<lambda>logic_micros.
      and_then (elapsed mem_env) (\<lambda>total_micros.
      ignore (record_event_processed mem_env ''bank'' total_micros logic_micros)))))))"

definition late_state :: "(mem_redis, pg_tables) world" where
  "late_state = snd (run (bank_rest (the (windows one_event 7))) mid_timed_out)"

lemma late_run: "run (bank_rest (the (windows one_event 7))) mid_timed_out = (Inr (), late_state)"
  by (simp add: late_state_def bank_rest_def bank_event_def mid_timed_out_eval mid_clock
      one_event_eval prod_eq_iff engine_eval services_eval scenario_eval)

lemma late_window:
  "windows late_state 7 \<noteq> None" "deadline_of mem_env mem_view late_state 7 = None"
  "\<exists>row. transactions (pg_st late_state) 7 = Some row \<and> tr_status row = St_degraded"
  by (simp_all add: late_state_def bank_rest_def bank_event_def mid_timed_out_eval mid_clock
      one_event_eval deadline_of_def zmembers_def zset_of_def engine_eval services_eval scenario_eval)

lemma bank_fields:
  "event_id bank_event = 2" "pe_transaction_id bank_event = 7" "pe_source bank_event = Bank"
  "reconciler_dedup_window_ms mem_cfg = 600000" "reconciler_timeout_ms mem_cfg = 2000"
  by (simp_all add: bank_event_def scenario_eval)

lemma bank_handler:
  "handle_event mem_env mem_cfg (mem_message 2 Bank 100 0)
     = and_then bank_claim (\<lambda>is_new. if \<not> is_new then ok () else claimed_event mem_env mem_cfg bank_event)"
  "claimed_event mem_env mem_cfg bank_event
     = and_then (utc_now mem_env) (\<lambda>now_ms. and_then bank_register (\<lambda>first.
         if \<not> first then handle_duplicate mem_env mem_cfg bank_event
         else add_to_window mem_env mem_cfg bank_event now_ms))"
  "add_to_window mem_env mem_cfg bank_event (1000 + of_nat (reads mid_claimed))
     = and_then (windows_entry 7 (new_partial 7 (1000 + of_nat (reads mid_claimed)) 2000)) bank_rest"
  by (simp_all add: handle_event_def claimed_event_def add_to_window_def bank_claim_def bank_register_def
      bank_fields bank_event_def[symmetric] bank_rest_def[abs_def] Let_def)

lemma bank_interrupted:
  "interleave\<^sup>*\<^sup>*
     ([handle_event mem_env mem_cfg (mem_message 2 Bank 100 0), handle_timeout mem_env mem_cfg 7], one_event)
     ([bank_rest (the (windows one_event 7)), handle_timeout mem_env mem_cfg 7], mid_registered)"
proof -
  let ?now = "1000 + of_nat (reads mid_claimed)"
  let ?t = "handle_timeout mem_env mem_cfg 7"
  have "interleave\<^sup>*\<^sup>* ([handle_event mem_env mem_cfg (mem_message 2 Bank 100 0), ?t], one_event)
      ([claimed_event mem_env mem_cfg bank_event, ?t], mid_claimed)"
    using interleave_first[OF bank_handler(1) mid_runs(1), of "[?t]"] by simp
  also have "interleave\<^sup>*\<^sup>* \<dots> ([and_then bank_register (\<lambda>first.
         if \<not> first then handle_duplicate mem_env mem_cfg bank_event
         else add_to_window mem_env mem_cfg bank_event ?now), ?t], mid_claimed\<lparr>reads := Suc (reads mid_claimed)\<rparr>)"
    using interleave_first[OF bank_handler(2), of mid_claimed ?now _ "[?t]"]
    by (simp add: run_utc_now mem_env_eval)
  also have "interleave\<^sup>*\<^sup>* \<dots> ([add_to_window mem_env mem_cfg bank_event ?now, ?t], mid_registered)"
    using interleave_first[OF refl mid_runs(2), of "\<lambda>first.
         if \<not> first then handle_duplicate mem_env mem_cfg bank_event
         else add_to_window mem_env mem_cfg bank_event ?now" "[?t]"] by simp
  also have "interleave\<^sup>*\<^sup>* \<dots> ([bank_rest (the (windows one_event 7)), ?t], mid_registered)"
  proof -
    obtain w where w: "windows one_event 7 = Some w" using one_event_open by auto
    then have "run (windows_entry 7 (new_partial 7 ?now 2000)) mid_registered = (Inr w, mid_registered)"
      by (simp add: windows_entry_def run_atomic mid_window)
    from interleave_first[OF bank_handler(3) this, of "[?t]"] w show ?thesis by simp
  qed
  finally show ?thesis .
qed

text \<open>C29. The window is lost when the timer overtakes the handler of a later event. From the state
  after the first event there is an execution of the two tasks in which both succeed, and in the end
  the window is open again in memory without any deadline, while the transaction is stored as
  degraded: nothing will ever close it unless the missing source still arrives.\<close>

theorem overlapping_timeout_strands_window:
  "\<exists>s'. windows_due mem_env mem_view one_event
     \<and> interleave\<^sup>*\<^sup>*
         ([handle_event mem_env mem_cfg (mem_message 2 Bank 100 0), handle_timeout mem_env mem_cfg 7], one_event)
         ([Ready (Inr ()), Ready (Inr ())], s')
     \<and> windows s' 7 \<noteq> None \<and> deadline_of mem_env mem_view s' 7 = None
     \<and> (\<exists>row. transactions (pg_st s') 7 = Some row \<and> tr_status row = St_degraded)"
proof -
  let ?r = "bank_rest (the (windows one_event 7))" and ?t = "handle_timeout mem_env mem_cfg 7"
  have due: "windows_due mem_env mem_view one_event"
    by (simp add: windows_due_def one_event_eval deadline_of_def zmembers_def zset_of_def
        services_eval deadlines_key_def)
  note bank_interrupted
  also have "interleave\<^sup>*\<^sup>* ([?r, ?t], mid_registered) ([?r, Ready (Inr ())], mid_timed_out)"
    using interleave_run[of 1 "[?r, ?t]" mid_registered] mid_runs(3) by simp
  also have "interleave\<^sup>*\<^sup>* \<dots> ([Ready (Inr ()), Ready (Inr ())], late_state)"
    using interleave_run[of 0 "[?r, Ready (Inr ())]" mid_timed_out] late_run by simp
  finally show ?thesis using due late_window by blast
qed

end
