(* ===== verification/Engine_Tables.thy ===== *)
theory Engine_Tables imports Window_Lifecycle
begin

text \<open>
  What the engine leaves in the database. \<open>stable\<close> says that a fact about the tables survives
  the passing of time and a kind of statement, whether the call succeeds or fails; the facts are
  that a transaction has a status, that a detail is stored and that an incident is recorded.
\<close>

section \<open>Stable facts about the tables\<close>

definition stable :: "(pg_stmt \<Rightarrow> bool) \<Rightarrow> (pg_tables \<Rightarrow> bool) \<Rightarrow> bool" where
  "stable A P \<longleftrightarrow>
     (\<forall>T T'. P T \<longrightarrow> plater T T' \<longrightarrow> P T')
     \<and> (\<forall>st T n T'. A st \<longrightarrow> P T \<longrightarrow> sql_execute st T n T' \<longrightarrow> P T')
     \<and> (\<forall>st T i T'. A st \<longrightarrow> P T \<longrightarrow> sql_fetch_one st T i T' \<longrightarrow> P T')"

lemma stable_conj: "stable A P \<Longrightarrow> stable A Q \<Longrightarrow> stable A (\<lambda>T. P T \<and> Q T)"
  unfolding stable_def by blast

lemma stable_ball: "(\<And>x. x \<in> S \<Longrightarrow> stable A (P x)) \<Longrightarrow> stable A (\<lambda>T. \<forall>x \<in> S. P x T)"
  unfolding stable_def by blast

lemma stable_later: "stable A P \<Longrightarrow> P T \<Longrightarrow> plater T T' \<Longrightarrow> P T'"
  unfolding stable_def by blast

lemma stable_execute: "stable A P \<Longrightarrow> A st \<Longrightarrow> P T \<Longrightarrow> sql_execute st T n T' \<Longrightarrow> P T'"
  unfolding stable_def by blast

lemma stable_fetch_one: "stable A P \<Longrightarrow> A st \<Longrightarrow> P T \<Longrightarrow> sql_fetch_one st T i T' \<Longrightarrow> P T'"
  unfolding stable_def by blast

lemma stable_weaken: "stable A P \<Longrightarrow> (\<And>st. B st \<Longrightarrow> A st) \<Longrightarrow> stable B P"
  unfolding stable_def by blast

definition on_tables :: "('p \<Rightarrow> pg_tables) \<Rightarrow> (pg_tables \<Rightarrow> bool) \<Rightarrow> ('r, 'p) world \<Rightarrow> bool" where
  "on_tables tables P s \<longleftrightarrow> P (tables (pg_st s))"

lemma on_tables_frames [simp]:
  "on_tables tables P (s\<lparr>redis_st := r\<rparr>) = on_tables tables P s"
  "on_tables tables P (s\<lparr>reads := n\<rparr>) = on_tables tables P s"
  "on_tables tables P (s\<lparr>windows := m\<rparr>) = on_tables tables P s"
  by (simp_all add: on_tables_def)

text \<open>Redis, the clocks and the windows do not matter.\<close>

lemma tables_redis: "keeps (on_tables tables P) (\<lambda>_. True) (redis_call f)"
  by (rule keeps_redis_call) simp

lemma tables_clock: "keeps (on_tables tables P) (\<lambda>_. True) (read_clock f)"
  by (rule keeps_read_clock) simp

lemma tables_then:
  "keeps (on_tables tables P) (\<lambda>_. True) p \<Longrightarrow> (\<And>x. keeps (on_tables tables P) (\<lambda>_. True) (f x)) \<Longrightarrow>
     keeps (on_tables tables P) (\<lambda>_. True) (and_then p f)"
  by (rule keeps_and_then)

lemma tables_windows:
  "keeps (on_tables tables P) (\<lambda>_. True) (windows_insert tx w)"
  "keeps (on_tables tables P) (\<lambda>_. True) (windows_remove tx)"
  unfolding windows_insert_def windows_remove_def by (rule keeps_atomic; auto)+

lemmas tables_rules = tables_redis tables_clock tables_then tables_windows keeps_map_err keeps_ignore[where Q = "\<lambda>_. True"]
  keeps_lift_result keeps_ok TrueI

lemma tables_if:
  "keeps (on_tables tables P) (\<lambda>_. True) p \<Longrightarrow> keeps (on_tables tables P) (\<lambda>_. True) q \<Longrightarrow>
     keeps (on_tables tables P) (\<lambda>_. True) (if b then p else q)"
  by simp

lemma tables_cleanup: "keeps (on_tables tables P) (\<lambda>_. True) (cleanup_window E tx)"
  unfolding cleanup_window_def delete_window_def remove_deadline_def cleanup_sources_def
  by (intro tables_rules)

lemma tables_emit: "keeps (on_tables tables P) (\<lambda>_. True) (publish_event E ch ev)"
  unfolding publish_event_def publish_def by (intro tables_rules)

lemma tables_misc:
  "keeps (on_tables tables P) (\<lambda>_. True) (record_match_result E b)"
  "keeps (on_tables tables P) (\<lambda>_. True) (record_event_processed E src t l)"
  "keeps (on_tables tables P) (\<lambda>_. True) (add_escalation E i d)"
  "keeps (on_tables tables P) (\<lambda>_. True) (utc_now E)"
  "keeps (on_tables tables P) (\<lambda>_. True) (elapsed E)"
  unfolding record_match_result_def record_event_processed_def add_escalation_def utc_now_def elapsed_def
  by (intro tables_rules tables_if)+

context pg_server
begin

lemma tables_execute:
  assumes "stable A P" and "A st"
  shows "keeps (on_tables tables P) (\<lambda>_. True) (pg_call (execute (pgs E) st))"
proof (rule keeps_pg_call)
  fix s x p
  assume P: "on_tables tables P s" and f: "execute (pgs E) st (pg_st s) = (x, p)"
  from execute_law f show "on_tables tables P (s\<lparr>pg_st := p\<rparr>)"
  proof (cases rule: complies_any)
    case (same V)
    with stable_later[OF assms(1) P[unfolded on_tables_def]] show ?thesis by (simp add: on_tables_def)
  next
    case (effect V y)
    from stable_execute[OF assms stable_later[OF assms(1) P[unfolded on_tables_def] effect(1)] effect(2)]
    show ?thesis by (simp add: on_tables_def)
  qed
qed

lemma tables_fetch_one:
  assumes "stable A P" and "A st"
  shows "keeps (on_tables tables P) (\<lambda>_. True) (pg_call (fetch_one (pgs E) st))"
proof (rule keeps_pg_call)
  fix s x p
  assume P: "on_tables tables P s" and f: "fetch_one (pgs E) st (pg_st s) = (x, p)"
  from fetch_one_law f show "on_tables tables P (s\<lparr>pg_st := p\<rparr>)"
  proof (cases rule: complies_any)
    case (same V)
    with stable_later[OF assms(1) P[unfolded on_tables_def]] show ?thesis by (simp add: on_tables_def)
  next
    case (effect V y)
    from stable_fetch_one[OF assms stable_later[OF assms(1) P[unfolded on_tables_def] effect(1)] effect(2)]
    show ?thesis by (simp add: on_tables_def)
  qed
qed

text \<open>A call that succeeds establishes what its statement establishes.\<close>

lemma execute_gives:
  assumes "\<And>T n T'. P T \<Longrightarrow> sql_execute st T n T' \<Longrightarrow> Q T'" and "stable (\<lambda>_. False) P"
  shows "hoare (on_tables tables P) (pcall (execute (pgs E) st)) (\<lambda>_. on_tables tables Q) (\<lambda>_ _. True)"
proof (rule hoareI)
  fix s x s'
  assume P: "on_tables tables P s" and run: "run (pcall (execute (pgs E) st)) s = (Inr x, s')"
  from run obtain p where p: "execute (pgs E) st (pg_st s) = (Inr x, p)" "s' = s\<lparr>pg_st := p\<rparr>"
    unfolding run_pcall_Inr by blast
  from execute_law p(1) obtain V where "plater (tables (pg_st s)) V" "sql_execute st V x (tables p)"
    by (rule complies_ok)
  with assms(1)[OF stable_later[OF assms(2) P[unfolded on_tables_def]]] p(2)
  show "on_tables tables Q s'" by (simp add: on_tables_def)
qed simp

end

lemma hoare_lift:
  "hoare P p Q (\<lambda>_ _. True) \<Longrightarrow> hoare P (map_err h p) Q (\<lambda>_ _. True)"
  by (rule hoare_map_err)

section \<open>The three facts\<close>

fun upserts :: "uuid \<Rightarrow> pg_stmt \<Rightarrow> bool" where
  "upserts tx (Upsert_transaction t st cur ty mid ms) \<longleftrightarrow> t = tx"
| "upserts tx _ \<longleftrightarrow> False"

fun writes_detail :: "uuid \<Rightarrow> source \<Rightarrow> pg_stmt \<Rightarrow> bool" where
  "writes_detail tx src (Upsert_detail t s ae aa fe fa mt rs) \<longleftrightarrow> t = tx \<and> s = source_name src"
| "writes_detail tx src _ \<longleftrightarrow> False"

definition has_status :: "uuid \<Rightarrow> overall_status \<Rightarrow> pg_tables \<Rightarrow> bool" where
  "has_status tx st T \<longleftrightarrow> (\<exists>row. transactions T tx = Some row \<and> tr_status row = st)"

definition stored :: "uuid \<Rightarrow> reconciliation_detail \<Rightarrow> pg_tables \<Rightarrow> bool" where
  "stored tx d T \<longleftrightarrow> (\<exists>row. details T (tx, rd_source d) = Some row
     \<and> dr_amount_expected row = amount_expected d \<and> dr_amount_actual row = amount_actual d
     \<and> dr_fee_expected row = fee_expected d \<and> dr_fee_actual row = fee_actual d
     \<and> dr_is_matched row = is_matched d \<and> dr_mismatch_reason row = mismatch_reason d)"

definition recorded :: "incident \<Rightarrow> pg_tables \<Rightarrow> bool" where
  "recorded inc T \<longleftrightarrow> sequence_ok T \<and> (\<exists>i row. incidents T i = Some row
     \<and> ir_transaction_id row = in_transaction_id inc \<and> ir_type row = incident_type inc
     \<and> ir_description row = description inc)"

lemma plater_incident:
  "plater T T' \<Longrightarrow> incidents T' i = Some b \<Longrightarrow> \<exists>a. incidents T i = Some a \<and> status_edit a b"
  "plater T T' \<Longrightarrow> incidents T i = Some a \<Longrightarrow> \<exists>b. incidents T' i = Some b \<and> status_edit a b"
  unfolding plater_def by (metis option_rel_Some2, metis option_rel_Some1)

lemma plater_absent: "plater T T' \<Longrightarrow> incidents T i = None \<Longrightarrow> incidents T' i = None"
  using plater_incident(1)[of T T' i] by (cases "incidents T' i") auto

lemma sequence_okD:
  "sequence_ok T \<Longrightarrow> 0 < next_incident T"
  "sequence_ok T \<Longrightarrow> incidents T i \<noteq> None \<Longrightarrow> 0 < sint i"
  "sequence_ok T \<Longrightarrow> incidents T i \<noteq> None \<Longrightarrow> sint i < next_incident T"
  unfolding sequence_ok_def by blast+

lemma sequence_later:
  assumes later: "plater T T'" and ok: "sequence_ok T"
  shows "sequence_ok T'"
proof -
  have le: "next_incident T \<le> next_incident T'" using later unfolding plater_def by blast
  have present: "incidents T i \<noteq> None" if "incidents T' i \<noteq> None" for i
    using plater_absent[OF later, of i] that by blast
  show ?thesis
    unfolding sequence_ok_def
  proof (intro conjI allI impI)
    show "0 < next_incident T'" using sequence_okD(1)[OF ok] le by (rule order_less_le_trans)
    show "0 < sint i" if "incidents T' i \<noteq> None" for i
      by (rule sequence_okD(2)[OF ok present[OF that]])
    show "sint i < next_incident T'" if "incidents T' i \<noteq> None" for i
      using sequence_okD(3)[OF ok present[OF that]] le by (rule order_less_le_trans)
  qed
qed

lemma sint_next: "0 < n \<Longrightarrow> n < 2 ^ 63 \<Longrightarrow> sint (word_of_int n :: i64) = n"
  by (simp add: sint_sbintrunc' signed_take_bit_int_eq_self)

lemma insert_fresh:
  assumes "sequence_ok T" and "sql_insert_incident tx k sev d T = Some (i, T')"
  shows "incidents T i = None" and "sequence_ok T'"
    and "\<exists>kind. kind_cast k = Some kind \<and> incidents T' = (incidents T)(i \<mapsto>
           \<lparr>ir_transaction_id = tx, ir_type = kind, ir_severity = sev, ir_description = d,
            ir_status = Is_open, ir_created_at = pg_now T, ir_escalated_at = None\<rparr>)"
    and "transactions T' = transactions T" and "details T' = details T"
proof -
  from assms have next_ok: "0 < next_incident T" "next_incident T < 2 ^ 63" "i = word_of_int (next_incident T)"
    by (auto simp: sql_insert_incident_def sequence_ok_def Let_def split: option.splits if_splits)
  have i: "sint i = next_incident T" unfolding next_ok(3) by (rule sint_next[OF next_ok(1,2)])
  show fresh: "incidents T i = None"
    using assms(1) i unfolding sequence_ok_def by (metis less_irrefl)
  show "\<exists>kind. kind_cast k = Some kind \<and> incidents T' = (incidents T)(i \<mapsto>
           \<lparr>ir_transaction_id = tx, ir_type = kind, ir_severity = sev, ir_description = d,
            ir_status = Is_open, ir_created_at = pg_now T, ir_escalated_at = None\<rparr>)"
    "transactions T' = transactions T" "details T' = details T"
    using assms(2) by (auto simp: sql_insert_incident_def Let_def split: option.splits if_splits)
  from assms(2) have "next_incident T' = next_incident T + 1"
    "\<And>j. j \<noteq> i \<Longrightarrow> incidents T' j = incidents T j"
    by (auto simp: sql_insert_incident_def Let_def split: option.splits if_splits)
  then show "sequence_ok T'"
    using assms(1) next_ok(1) i unfolding sequence_ok_def
    by (metis add_strict_increasing2 less_add_one less_trans zero_less_one order_less_imp_le)
qed

lemma source_cast_Some: "source_cast t = Some s \<Longrightarrow> t = source_name s"
  by (auto simp: source_cast_def split: if_splits)

lemma stableI:
  assumes "\<And>T T'. P T \<Longrightarrow> plater T T' \<Longrightarrow> P T'"
    and "\<And>tx st cur ty mid ms T T'. A (Upsert_transaction tx st cur ty mid ms) \<Longrightarrow> P T \<Longrightarrow>
           sql_upsert_transaction tx st cur ty mid ms T = Some T' \<Longrightarrow> P T'"
    and "\<And>tx src ae aa fe fa mt rs T T'. A (Upsert_detail tx src ae aa fe fa mt rs) \<Longrightarrow> P T \<Longrightarrow>
           sql_upsert_detail tx src ae aa fe fa mt rs T = Some T' \<Longrightarrow> P T'"
    and "\<And>tx k sev d T i T'. A (Insert_incident tx k sev d) \<Longrightarrow> P T \<Longrightarrow>
           sql_insert_incident tx k sev d T = Some (i, T') \<Longrightarrow> P T'"
    and "\<And>i sev T n T'. A (Update_severity i sev) \<Longrightarrow> P T \<Longrightarrow> sql_update_severity i sev T = (n, T') \<Longrightarrow> P T'"
  shows "stable A P"
proof -
  have "P T'" if a: "A st" "P T" and e: "sql_execute st T n T'" for st T n T'
  proof (cases st)
    case (Upsert_transaction tx o1 cur ty mid ms)
    with e have "sql_upsert_transaction tx o1 cur ty mid ms T = Some T'" by simp
    with assms(2) a Upsert_transaction show ?thesis by blast
  next
    case (Upsert_detail tx src ae aa fe fa mt rs)
    with e have "sql_upsert_detail tx src ae aa fe fa mt rs T = Some T'" by simp
    with assms(3) a Upsert_detail show ?thesis by blast
  next
    case (Insert_incident tx k sev d)
    with e obtain i where "sql_insert_incident tx k sev d T = Some (i, T')" by auto
    with assms(4) a Insert_incident show ?thesis by blast
  next
    case (Update_severity i sev)
    with e have "sql_update_severity i sev T = (n, T')" by simp
    with assms(5) a Update_severity show ?thesis by blast
  next
    case Select_one
    with a e show ?thesis by simp
  qed
  moreover have "P T'" if a: "A st" "P T" and e: "sql_fetch_one st T i T'" for st T i T'
  proof (cases st)
    case (Insert_incident tx k sev d)
    with e have "sql_insert_incident tx k sev d T = Some (i, T')" by simp
    with assms(4) a Insert_incident show ?thesis by blast
  qed (use a e in simp_all)
  ultimately show ?thesis using assms(1) unfolding stable_def by blast
qed

lemma upsert_transaction_frame:
  "sql_upsert_transaction tx st cur ty mid ms T = Some T' \<Longrightarrow>
     details T' = details T \<and> incidents T' = incidents T \<and> next_incident T' = next_incident T
     \<and> (\<forall>t. t \<noteq> tx \<longrightarrow> transactions T' t = transactions T t)"
  by (auto simp: sql_upsert_transaction_def split: option.splits)

lemma upsert_detail_frame:
  "sql_upsert_detail tx src ae aa fe fa mt rs T = Some T' \<Longrightarrow>
     transactions T' = transactions T \<and> incidents T' = incidents T \<and> next_incident T' = next_incident T
     \<and> (\<forall>t s. (t, source_name s) \<noteq> (tx, src) \<longrightarrow> details T' (t, s) = details T (t, s))"
  by (auto simp: sql_upsert_detail_def dest: source_cast_Some split: option.splits if_splits)

lemma insert_incident_frame:
  "sql_insert_incident tx k sev d T = Some (i, T') \<Longrightarrow>
     transactions T' = transactions T \<and> details T' = details T"
  by (auto simp: sql_insert_incident_def Let_def split: option.splits if_splits)

lemma update_severity_frame:
  "sql_update_severity i sev T = (n, T') \<Longrightarrow>
     transactions T' = transactions T \<and> details T' = details T \<and> next_incident T' = next_incident T
     \<and> (\<forall>j. incidents T' j = incidents T j \<or> (\<exists>row. incidents T j = Some row \<and> incidents T' j =
           Some (row\<lparr>ir_severity := sev, ir_escalated_at := Some (pg_now T)\<rparr>)))"
  by (auto simp: sql_update_severity_def split: option.splits if_splits)

lemma status_stable: "stable (\<lambda>st. \<not> upserts tx st) (has_status tx o1)"
  by (rule stableI)
    (auto simp: has_status_def plater_def dest!: upsert_transaction_frame upsert_detail_frame
      insert_incident_frame update_severity_frame)

lemma stored_stable: "stable (\<lambda>st. \<not> writes_detail tx (rd_source d) st) (stored tx d)"
  by (rule stableI)
    (auto simp: stored_def plater_def dest!: upsert_transaction_frame upsert_detail_frame
      insert_incident_frame update_severity_frame)

lemma sequence_stable: "stable (\<lambda>_. True) sequence_ok"
proof (rule stableI)
  show "sequence_ok T'" if "sequence_ok T" and "sql_update_severity i sev T = (n, T')" for i sev T n T'
  proof -
    note frame = update_severity_frame[OF that(2)]
    have "incidents T j \<noteq> None" if "incidents T' j \<noteq> None" for j using frame that by (metis option.distinct(1))
    with frame that(1) show ?thesis unfolding sequence_ok_def by metis
  qed
  show "sequence_ok T'" if "sequence_ok T" and "sql_upsert_transaction tx st cur ty mid ms T = Some T'"
    for tx st cur ty mid ms T T'
    using that(1) upsert_transaction_frame[OF that(2)] unfolding sequence_ok_def by metis
  show "sequence_ok T'" if "sequence_ok T" and "sql_upsert_detail tx src ae aa fe fa mt rs T = Some T'"
    for tx src ae aa fe fa mt rs T T'
    using that(1) upsert_detail_frame[OF that(2)] unfolding sequence_ok_def by metis
qed (rule sequence_later, assumption+, rule insert_fresh(2))

lemma recorded_stable: "stable (\<lambda>_. True) (recorded inc)"
proof -
  let ?P = "\<lambda>T. \<exists>i row. incidents T i = Some row \<and> ir_transaction_id row = in_transaction_id inc
     \<and> ir_type row = incident_type inc \<and> ir_description row = description inc"
  have "stable (\<lambda>_. True) (\<lambda>T. sequence_ok T \<and> ?P T)"
  proof (rule stableI)
    show "sequence_ok T' \<and> ?P T'" if "sequence_ok T \<and> ?P T" and later: "plater T T'" for T T'
    proof -
      from that(1) obtain i row where row: "incidents T i = Some row"
        "ir_transaction_id row = in_transaction_id inc" "ir_type row = incident_type inc"
        "ir_description row = description inc" by blast
      from plater_incident(2)[OF later row(1)] obtain st where "incidents T' i = Some (row\<lparr>ir_status := st\<rparr>)"
        by (auto simp: status_edit_def)
      with row sequence_later[OF later] that(1) show ?thesis by force
    qed
    show "sequence_ok T' \<and> ?P T'"
      if "sequence_ok T \<and> ?P T" and ins: "sql_insert_incident tx k sev d T = Some (i, T')" for tx k sev d T i T'
    proof -
      from that(1) obtain j row where row: "incidents T j = Some row"
        "ir_transaction_id row = in_transaction_id inc" "ir_type row = incident_type inc"
        "ir_description row = description inc" by blast
      note fresh = insert_fresh[OF conjunct1[OF that(1)] ins]
      from fresh(1) row(1) have "j \<noteq> i" by auto
      with fresh(3) row(1) have "incidents T' j = Some row" by auto
      with row fresh(2) show ?thesis by blast
    qed
    show "sequence_ok T' \<and> ?P T'"
      if "sequence_ok T \<and> ?P T" and upd: "sql_update_severity i sev T = (n, T')" for i sev T n T'
    proof -
      from that(1) obtain j row where row: "incidents T j = Some row"
        "ir_transaction_id row = in_transaction_id inc" "ir_type row = incident_type inc"
        "ir_description row = description inc" by blast
      have "sequence_ok T'"
        using stable_execute[OF sequence_stable, where st = "Update_severity i sev"] that(1) upd by force
      moreover from update_severity_frame[OF upd] row(1) have "incidents T' j = Some row
          \<or> incidents T' j = Some (row\<lparr>ir_severity := sev, ir_escalated_at := Some (pg_now T)\<rparr>)"
        by (metis option.inject)
      ultimately show ?thesis using row by force
    qed
    show "sequence_ok T' \<and> ?P T'"
      if P: "sequence_ok T \<and> ?P T" and u: "sql_upsert_transaction tx st cur ty mid ms T = Some T'"
      for tx st cur ty mid ms T T'
      using P upsert_transaction_frame[OF u] unfolding sequence_ok_def by metis
    show "sequence_ok T' \<and> ?P T'"
      if P: "sequence_ok T \<and> ?P T" and u: "sql_upsert_detail tx src ae aa fe fa mt rs T = Some T'"
      for tx src ae aa fe fa mt rs T T'
      using P upsert_detail_frame[OF u] unfolding sequence_ok_def by metis
  qed
  then show ?thesis unfolding recorded_def[abs_def] .
qed

section \<open>The engine's statements\<close>

context pg_server
begin

lemma upsert_transaction_keeps:
  assumes "stable A P" and "A (Upsert_transaction tx st cur ty mid ms)"
  shows "keeps (on_tables tables P) (\<lambda>_. True) (upsert_transaction E tx st cur ty mid ms)"
  unfolding upsert_transaction_def by (intro tables_rules tables_execute[OF assms])

lemma upsert_details_keeps:
  assumes "stable A P" and "\<And>d. d \<in> set ds \<Longrightarrow>
    A (Upsert_detail tx (source_name (rd_source d)) (amount_expected d) (amount_actual d)
         (fee_expected d) (fee_actual d) (is_matched d) (mismatch_reason d))"
  shows "keeps (on_tables tables P) (\<lambda>_. True) (upsert_reconciliation_details E tx ds)"
  unfolding upsert_reconciliation_details_def
  by (intro keeps_for_each tables_rules tables_execute[OF assms(1)] assms(2))

lemma create_incident_keeps:
  assumes "stable A P" and "A (Insert_incident (in_transaction_id i) (kind_name (incident_type i))
    (severity i) (description i))"
  shows "keeps (on_tables tables P) (\<lambda>_. True) (create_incident E i)"
  unfolding create_incident_def by (intro tables_rules tables_fetch_one[OF assms])

lemma persist_keeps:
  assumes "stable A P" and "A (Insert_incident (in_transaction_id i) (kind_name (incident_type i))
    (severity i) (description i))"
  shows "keeps (on_tables tables P) (\<lambda>_. True) (persist_incident E cfg i)"
  unfolding persist_incident_def
  by (intro tables_rules tables_if create_incident_keeps[OF assms] tables_emit tables_misc)

lemma report_keeps:
  assumes "stable A P" and "\<And>i :: incident. A (Insert_incident (in_transaction_id i) (kind_name (incident_type i))
    (severity i) (description i))"
  shows "keeps (on_tables tables P) (\<lambda>_. True) (report_result E cfg tx now result)"
proof (cases result)
  case Matched
  then show ?thesis unfolding report_result_def
    by simp (intro tables_rules tables_emit tables_misc)
next
  case (Mismatched incs)
  then show ?thesis unfolding report_result_def
    by simp (intro tables_rules keeps_for_each persist_keeps[OF assms(1)] assms(2) tables_misc)
qed

lemma tables_hoare:
  "keeps (on_tables tables P) (\<lambda>_. True) p \<Longrightarrow>
     hoare (on_tables tables P) p (\<lambda>_. on_tables tables P) (\<lambda>_ _. True)"
  by (rule hoare_post[OF keeps_hoare]) auto

text \<open>What each write establishes.\<close>

lemma upsert_transaction_status:
  assumes "status_cast st = Some o1" and "stable (\<lambda>_. True) P"
  shows "hoare (on_tables tables P) (lift (upsert_transaction E tx st cur ty mid ms))
     (\<lambda>_. on_tables tables (\<lambda>T. P T \<and> has_status tx o1 T)) (\<lambda>_ _. True)"
  unfolding upsert_transaction_def
proof (intro hoare_map_err hoare_and_then[OF execute_gives[where P = P and Q = "\<lambda>T. P T \<and> has_status tx o1 T"]] hoare_ok)
  show "P T' \<and> has_status tx o1 T'"
    if "P T" and e: "sql_execute (Upsert_transaction tx st cur ty mid ms) T n T'" for T n T'
    using stable_execute[OF assms(2) TrueI that] e assms(1)
    by (auto simp: sql_upsert_transaction_def has_status_def split: option.splits)
  show "stable (\<lambda>_. False) P" by (rule stable_weaken[OF assms(2)]) simp
qed

text \<open>The three columns of text the engine stores from its own constants fit.\<close>

lemma reason_fits:
  "d \<in> set (build_details w) \<Longrightarrow> varchar_opt 40 (mismatch_reason d) = Some (mismatch_reason d)"
proof -
  have fits: "varchar_opt 40 (Some ''currency mismatch'') = Some (Some ''currency mismatch'')"
    "varchar_opt 40 (Some ''merchant amount mismatch'') = Some (Some ''merchant amount mismatch'')"
    "varchar_opt 40 (Some ''gateway consistency mismatch'') = Some (Some ''gateway consistency mismatch'')"
    "varchar_opt 40 (Some ''bank amount mismatch'') = Some (Some ''bank amount mismatch'')"
    "varchar_opt 40 None = Some None"
    by (simp_all add: varchar_opt_def varchar_def is_cont_def)
  show "d \<in> set (build_details w) \<Longrightarrow> ?thesis"
    by (cases "events w Merchant"; cases "events w Gateway"; cases "events w Bank")
      (auto simp: build_details_def Let_def fits)
qed

lemma detail_sources_distinct: "distinct (map rd_source (build_details w))"
  by (cases "events w Merchant"; cases "events w Gateway"; cases "events w Bank")
    (simp_all add: build_details_def Let_def)

end

text \<open>A detail write stores its detail and keeps a fact that such a write keeps.\<close>

fun detail_stmt :: "uuid \<Rightarrow> reconciliation_detail \<Rightarrow> pg_stmt" where
  "detail_stmt tx d = Upsert_detail tx (source_name (rd_source d)) (amount_expected d) (amount_actual d)
     (fee_expected d) (fee_actual d) (is_matched d) (mismatch_reason d)"

context pg_server
begin

lemma upsert_detail_stored:
  assumes "varchar_opt 40 (mismatch_reason d) = Some (mismatch_reason d)"
    and "stable A P" and "A (detail_stmt tx d)"
  shows "hoare (on_tables tables P) (and_then (pcall (execute (pgs E) (detail_stmt tx d))) (\<lambda>_. ok ()))
     (\<lambda>_. on_tables tables (\<lambda>T. P T \<and> stored tx d T)) (\<lambda>_ _. True)"
proof (intro hoare_and_then[OF execute_gives[where P = P and Q = "\<lambda>T. P T \<and> stored tx d T"]] hoare_ok)
  show "P T' \<and> stored tx d T'" if "P T" and e: "sql_execute (detail_stmt tx d) T n T'" for T n T'
    using stable_execute[OF assms(2,3) that] e assms(1)
    by (auto simp: sql_upsert_detail_def stored_def split: option.splits if_splits)
  show "stable (\<lambda>_. False) P" by (rule stable_weaken[OF assms(2)]) simp
qed

lemma stored_list_stable:
  assumes "stable A P" and "A (detail_stmt tx d)" and "rd_source d \<notin> rd_source ` set ds"
  shows "stable (\<lambda>st. st = detail_stmt tx d) (\<lambda>T. P T \<and> (\<forall>x \<in> set ds. stored tx x T))"
proof -
  have "stable (\<lambda>st. st = detail_stmt tx d) (\<lambda>T. \<forall>x \<in> set ds. stored tx x T)"
    using assms(3)
  proof (induction ds)
    case Nil
    show ?case by (simp add: stable_def)
  next
    case (Cons x ds)
    have "stable (\<lambda>st. st = detail_stmt tx d) (stored tx x)"
      by (rule stable_weaken[OF stored_stable]) (use Cons.prems in auto)
    with Cons show ?case by (auto intro!: stable_conj)
  qed
  moreover have "stable (\<lambda>st. st = detail_stmt tx d) P"
    by (rule stable_weaken[OF assms(1)]) (simp only: assms(2))
  ultimately show ?thesis by (rule stable_conj[rotated])
qed

lemma upsert_details_stored:
  assumes "stable A P" and "\<And>d. A (detail_stmt tx d)"
    and "distinct (map rd_source (xs @ ds))"
    and "\<forall>d \<in> set ds. varchar_opt 40 (mismatch_reason d) = Some (mismatch_reason d)"
  shows "hoare (on_tables tables (\<lambda>T. P T \<and> (\<forall>x \<in> set xs. stored tx x T)))
     (upsert_reconciliation_details E tx ds)
     (\<lambda>_. on_tables tables (\<lambda>T. P T \<and> (\<forall>x \<in> set (xs @ ds). stored tx x T))) (\<lambda>_ _. True)"
  using assms(3,4)
proof (induction ds arbitrary: xs)
  case Nil
  then show ?case by (simp add: upsert_reconciliation_details_def hoare_ok)
next
  case (Cons d ds)
  have st: "stable (\<lambda>st. st = detail_stmt tx d) (\<lambda>T. P T \<and> (\<forall>x \<in> set xs. stored tx x T))"
    by (rule stored_list_stable[OF assms(1,2)]) (use Cons.prems(1) in auto)
  have one: "hoare (on_tables tables (\<lambda>T. P T \<and> (\<forall>x \<in> set xs. stored tx x T)))
      (and_then (pcall (execute (pgs E) (detail_stmt tx d))) (\<lambda>_. ok ()))
      (\<lambda>_. on_tables tables (\<lambda>T. P T \<and> (\<forall>x \<in> set (xs @ [d]). stored tx x T))) (\<lambda>_ _. True)"
    by (rule hoare_post[OF upsert_detail_stored[OF _ st refl]])
      (use Cons.prems(2) in \<open>auto simp: on_tables_def\<close>)
  have rest: "hoare (on_tables tables (\<lambda>T. P T \<and> (\<forall>x \<in> set (xs @ [d]). stored tx x T)))
      (upsert_reconciliation_details E tx ds)
      (\<lambda>_. on_tables tables (\<lambda>T. P T \<and> (\<forall>x \<in> set ((xs @ [d]) @ ds). stored tx x T))) (\<lambda>_ _. True)"
    by (rule Cons.IH) (use Cons.prems in auto)
  from hoare_and_then[OF one rest] show ?case
    by (simp add: upsert_reconciliation_details_def)
qed

lemma create_incident_recorded:
  assumes "stable A P" and "\<And>i :: incident. A (Insert_incident (in_transaction_id i)
    (kind_name (incident_type i)) (severity i) (description i))"
  shows "hoare (on_tables tables (\<lambda>T. P T \<and> sequence_ok T)) (create_incident E inc)
     (\<lambda>_. on_tables tables (\<lambda>T. P T \<and> recorded inc T)) (\<lambda>_ _. True)"
proof (rule hoareI)
  fix s x s'
  let ?st = "Insert_incident (in_transaction_id inc) (kind_name (incident_type inc)) (severity inc)
      (description inc)"
  assume pre: "on_tables tables (\<lambda>T. P T \<and> sequence_ok T) s"
    and run: "run (create_incident E inc) s = (Inr x, s')"
  from run obtain p where p: "fetch_one (pgs E) ?st (pg_st s) = (Inr x, p)" "s' = s\<lparr>pg_st := p\<rparr>"
    unfolding create_incident_def run_pcall_Inr by blast
  from fetch_one_law p(1) obtain V where V: "plater (tables (pg_st s)) V" "sql_fetch_one ?st V x (tables p)"
    by (rule complies_ok)
  from pre have "P V" "sequence_ok V"
    using stable_later[OF assms(1) _ V(1)] sequence_later[OF V(1)] by (simp_all add: on_tables_def)
  moreover from V(2) have ins: "sql_insert_incident (in_transaction_id inc) (kind_name (incident_type inc))
      (severity inc) (description inc) V = Some (x, tables p)" by simp
  ultimately have "P (tables p)" "recorded inc (tables p)"
    using stable_fetch_one[OF assms _ V(2)] insert_fresh(2,3)[OF _ ins]
    by (auto simp: recorded_def)
  with p(2) show "on_tables tables (\<lambda>T. P T \<and> recorded inc T) s'" by (simp add: on_tables_def)
qed simp

lemma persist_recorded:
  assumes "stable A P" and "\<And>i :: incident. A (Insert_incident (in_transaction_id i)
    (kind_name (incident_type i)) (severity i) (description i))"
  shows "hoare (on_tables tables (\<lambda>T. P T \<and> sequence_ok T)) (persist_incident E cfg inc)
     (\<lambda>_. on_tables tables (\<lambda>T. P T \<and> recorded inc T)) (\<lambda>_ _. True)"
  unfolding persist_incident_def
  by (rule hoare_and_then[OF hoare_lift[OF create_incident_recorded[OF assms]]])
    (intro tables_hoare tables_rules tables_if tables_emit tables_misc)

lemma persist_all_recorded:
  assumes "stable A P" and "\<And>i :: incident. A (Insert_incident (in_transaction_id i)
    (kind_name (incident_type i)) (severity i) (description i))"
  shows "hoare (on_tables tables (\<lambda>T. P T \<and> sequence_ok T)) (for_each incs (persist_incident E cfg))
     (\<lambda>_. on_tables tables (\<lambda>T. P T \<and> (\<forall>i \<in> set incs. recorded i T))) (\<lambda>_ _. True)"
  using assms(1)
proof (induction incs arbitrary: P)
  case Nil
  show ?case by (auto intro!: hoare_ok simp: on_tables_def)
next
  case (Cons i incs)
  have st: "stable A (\<lambda>T. P T \<and> recorded i T)"
    by (rule stable_conj[OF Cons.prems stable_weaken[OF recorded_stable]]) simp
  have "hoare (on_tables tables (\<lambda>T. P T \<and> recorded i T)) (for_each incs (persist_incident E cfg))
     (\<lambda>_. on_tables tables (\<lambda>T. (P T \<and> recorded i T) \<and> (\<forall>i \<in> set incs. recorded i T))) (\<lambda>_ _. True)"
    by (rule hoare_pre[OF Cons.IH[OF st]]) (auto simp: on_tables_def recorded_def)
  from hoare_and_then[OF persist_recorded[OF Cons.prems assms(2)] this] show ?case
    by (simp add: conj_assoc)
qed

end

text \<open>The verdict of a window, in the tables.\<close>

definition verdict_stored :: "partial_transaction \<Rightarrow> pg_tables \<Rightarrow> bool" where
  "verdict_stored w T \<longleftrightarrow>
     has_status (pt_transaction_id w) (if check_invariants w = Matched then St_matched else St_mismatch) T
     \<and> (\<forall>d \<in> set (build_details w). stored (pt_transaction_id w) d T)
     \<and> (\<forall>i \<in> set (reported (check_invariants w)). recorded i T)"

text \<open>What a timeout with missing sources and a second event of a source leave.\<close>

definition degraded_stored :: "config \<Rightarrow> uuid \<Rightarrow> partial_transaction \<Rightarrow> pg_tables \<Rightarrow> bool" where
  "degraded_stored cfg tx w T \<longleftrightarrow> has_status tx St_degraded T
     \<and> (\<forall>d \<in> set (build_details w). stored tx d T)
     \<and> recorded (missing_incident cfg tx (missing_sources w)) T"

definition duplicate_stored :: "('r, 'p) env \<Rightarrow> payment_event \<Rightarrow> pg_tables \<Rightarrow> bool" where
  "duplicate_stored E event T \<longleftrightarrow> has_status (pe_transaction_id event) St_pending T
     \<and> recorded (duplicate_incident E (pe_transaction_id event) (pe_source event)) T"

context pg_server
begin

lemma report_recorded:
  assumes "stable A P" and "\<And>i :: incident. A (Insert_incident (in_transaction_id i)
    (kind_name (incident_type i)) (severity i) (description i))"
  shows "hoare (on_tables tables (\<lambda>T. P T \<and> sequence_ok T)) (report_result E cfg tx now result)
     (\<lambda>_. on_tables tables (\<lambda>T. P T \<and> (\<forall>i \<in> set (reported result). recorded i T))) (\<lambda>_ _. True)"
proof (cases result)
  case Matched
  have "keeps (on_tables tables (\<lambda>T. P T \<and> sequence_ok T)) (\<lambda>_. True) (report_result E cfg tx now Matched)"
    unfolding report_result_def by simp (intro tables_rules tables_emit tables_misc)
  from tables_hoare[OF this] show ?thesis
    unfolding Matched by (rule hoare_post) (auto simp: on_tables_def)
next
  case (Mismatched incs)
  have "keeps (on_tables tables (\<lambda>T. P T \<and> sequence_ok T)) (\<lambda>_. True)
      (ignore (record_match_result E False))"
    by (intro tables_rules tables_misc)
  from hoare_and_then[OF tables_hoare[OF this] persist_all_recorded[OF assms]] show ?thesis
    unfolding Mismatched by (simp add: report_result_def)
qed

text \<open>The steps that finalising and degrading share.\<close>

abbreviation inserts :: "pg_stmt \<Rightarrow> bool" where
  "inserts st \<equiv> \<exists>tx k sev d. st = Insert_incident tx k sev d"

lemma inserts_stable:
  "stable inserts (\<lambda>T. has_status tx o1 T \<and> (\<forall>d \<in> S. stored tx d T))"
  by (intro stable_conj stable_ball stable_weaken[OF status_stable] stable_weaken[OF stored_stable]) auto

lemma details_written:
  "hoare (on_tables tables (\<lambda>T. sequence_ok T \<and> has_status tx o1 T))
     (lift (upsert_reconciliation_details E tx (build_details w)))
     (\<lambda>_. on_tables tables (\<lambda>T. (has_status tx o1 T \<and> (\<forall>d \<in> set (build_details w). stored tx d T))
        \<and> sequence_ok T)) (\<lambda>_ _. True)"
proof -
  have st: "stable (\<lambda>st. \<not> upserts tx st) (\<lambda>T. sequence_ok T \<and> has_status tx o1 T)"
    by (intro stable_conj status_stable stable_weaken[OF sequence_stable] TrueI)
  have "hoare (on_tables tables (\<lambda>T. sequence_ok T \<and> has_status tx o1 T))
     (lift (upsert_reconciliation_details E tx (build_details w)))
     (\<lambda>_. on_tables tables (\<lambda>T. (sequence_ok T \<and> has_status tx o1 T)
        \<and> (\<forall>d \<in> set (build_details w). stored tx d T))) (\<lambda>_ _. True)"
    using upsert_details_stored[OF st, of tx "[]" "build_details w"] detail_sources_distinct reason_fits
    by (intro hoare_lift) simp
  then show ?thesis by (rule hoare_post) (auto simp: on_tables_def)
qed

lemma sequence_hoare:
  "hoare (on_tables tables sequence_ok) (utc_now E) (\<lambda>_. on_tables tables sequence_ok) (\<lambda>_ _. True)"
  "hoare (on_tables tables sequence_ok) (elapsed E) (\<lambda>_. on_tables tables sequence_ok) (\<lambda>_ _. True)"
  by (rule tables_hoare[OF tables_misc(4)], rule tables_hoare[OF tables_misc(5)])

lemma finalize_stores_verdict:
  "hoare (on_tables tables sequence_ok) (finalize_window E cfg w)
     (\<lambda>_. on_tables tables (verdict_stored w)) (\<lambda>_ _. True)"
proof -
  let ?tx = "pt_transaction_id w" and ?st = "if check_invariants w = Matched then St_matched else St_mismatch"
  have cast: "status_cast (overall_status_of (check_invariants w)) = Some ?st"
    by (cases "check_invariants w") (simp_all add: overall_status_of_def)
  have report: "hoare (on_tables tables (\<lambda>T. (has_status ?tx ?st T
      \<and> (\<forall>d \<in> set (build_details w). stored ?tx d T)) \<and> sequence_ok T))
      (report_result E cfg ?tx now (check_invariants w))
      (\<lambda>_. on_tables tables (verdict_stored w)) (\<lambda>_ _. True)" for now
    by (rule hoare_post[OF report_recorded[OF inserts_stable]]) (auto simp: on_tables_def verdict_stored_def)
  show ?thesis
    unfolding finalize_window_def Let_def
    by (intro hoare_and_then[OF sequence_hoare(1)] hoare_and_then[OF sequence_hoare(2)]
        hoare_and_then[OF upsert_transaction_status[OF cast sequence_stable]]
        hoare_and_then[OF details_written] hoare_and_then[OF report] tables_hoare[OF tables_cleanup])
qed

lemma degrade_stores:
  "hoare (on_tables tables sequence_ok) (degrade_window E cfg tx w)
     (\<lambda>_. on_tables tables (degraded_stored cfg tx w)) (\<lambda>_ _. True)"
proof -
  have persist: "hoare (on_tables tables (\<lambda>T. (has_status tx St_degraded T
      \<and> (\<forall>d \<in> set (build_details w). stored tx d T)) \<and> sequence_ok T))
      (persist_incident E cfg (missing_incident cfg tx (missing_sources w)))
      (\<lambda>_. on_tables tables (degraded_stored cfg tx w)) (\<lambda>_ _. True)"
    by (rule hoare_post[OF persist_recorded[OF inserts_stable]]) (auto simp: on_tables_def degraded_stored_def)
  show ?thesis
    unfolding degrade_window_def Let_def
    by (intro hoare_and_then[OF upsert_transaction_status[OF status_cast_labels(3) sequence_stable]]
        hoare_and_then[OF details_written] hoare_and_then[OF persist] tables_hoare[OF tables_cleanup])
qed

lemma duplicate_stores:
  "hoare (on_tables tables sequence_ok) (handle_duplicate E cfg event)
     (\<lambda>_. on_tables tables (duplicate_stored E event)) (\<lambda>_ _. True)"
proof -
  let ?tx = "pe_transaction_id event"
  have persist: "hoare (on_tables tables (\<lambda>T. sequence_ok T \<and> has_status ?tx St_pending T))
      (persist_incident E cfg (duplicate_incident E ?tx (pe_source event)))
      (\<lambda>_. on_tables tables (duplicate_stored E event)) (\<lambda>_ _. True)"
    by (rule hoare_post[OF hoare_pre[OF persist_recorded[OF inserts_stable[where S = "{}"]]]])
      (auto simp: on_tables_def duplicate_stored_def)
  show ?thesis
    unfolding handle_duplicate_def Let_def
    by (intro hoare_and_then[OF upsert_transaction_status[OF status_cast_labels(4) sequence_stable]]
        hoare_and_then[OF persist] tables_hoare tables_rules tables_misc)
qed

end

end
