(* ===== verification/Scenario.thy ===== *)
theory Scenario imports Window_Lifecycle
begin

text \<open>
  The three events of one transaction on the in-memory services: the states between them, written
  out, from the state \<open>one_event\<close> after the first.
\<close>

definition two_events :: "(mem_redis, pg_tables) world" where
  "two_events = snd (run (handle_event mem_env mem_cfg (mem_message 2 Gateway 100 10)) one_event)"

lemma two_events_outcome:
  "run (handle_event mem_env mem_cfg (mem_message 2 Gateway 100 10)) one_event =
     (Inr (),
      \<lparr>redis_st =
        \<lparr>m_clock = 0,
         m_cells =
           [(''dedup:event:1'', CStr ''1'', Some 600000),
            (''sources:7'', CSet [''gateway'', ''merchant''], Some 60000),
            (''deadlines'', CZset [(''7'', 3010)], None),
            (''window:7'', CStr ''7'', Some 30000),
            (''metrics:events:total'', CStr ''2'', Some 3600000),
            (''source:last_seen:merchant'', CStr ''13'', Some 3600000),
            (''source:events:merchant'', CStr ''1'', None),
            (''metrics:latencies:total'', CList [''16'', ''12''], None),
            (''metrics:latencies:logic'', CList [''26'', ''11''], None),
            (''dedup:event:2'', CStr ''1'', Some 600000),
            (''source:last_seen:gateway'', CStr ''17'', Some 3600000),
            (''source:events:gateway'', CStr ''1'', None)],
         m_sent = [(''reconciliation.events'', ''received''), (''reconciliation.events'', ''progress''),
           (''reconciliation.events'', ''progress'')],
         m_groups = [], m_new = [], m_pending = []\<rparr>,
       pg_st = \<lparr>pg_now = 0, transactions = Map.empty, details = Map.empty, incidents = Map.empty,
              next_incident = 1\<rparr>,
       windows = [7 \<mapsto>
         \<lparr>pt_transaction_id = 7,
          events = [Merchant \<mapsto> sm_event (mem_message 1 Merchant 100 0),
            Gateway \<mapsto> sm_event (mem_message 2 Gateway 100 10)],
          first_seen_at_ms = 1010, deadline_ms = 3010, processing_time_micros = 26\<rparr>],
       reads = 18\<rparr>)"
  by (simp add: one_event_eval ordered_eval log_eval scenario_eval cong: ordered_congs)

lemmas two_events_eval = two_events_def[unfolded two_events_outcome snd_conv]

lemma two_events_run:
  "run (handle_event mem_env mem_cfg (mem_message 2 Gateway 100 10)) one_event = (Inr (), two_events)"
  by (simp add: two_events_eval two_events_outcome)

lemma two_events_ok: "queues_ok mem_env mem_view two_events" "windows_ok two_events"
  using mem.queues.run_keeps[OF mem.queues.safe_handle_event[OF UNIV_I UNIV_I UNIV_I] one_event_ok
      two_events_run] by simp_all

text \<open>The last event: up to the verdict, the verdict, and what is left to store.\<close>

lemma last_event_succeeds:
  "fst (run (handle_event mem_env mem_cfg (mem_message 3 Bank 90 0)) two_events) = Inr ()"
  apply (simp add: two_events_eval ordered_eval log_eval scenario_eval cong: ordered_congs)
  apply (simp add: finalize_window_def Let_def verdict_eval)
  apply (simp add: event_eval report_result_def cleanup_window_def upsert_transaction_def
      upsert_reconciliation_details_def log_eval scenario_eval cong: state_congs)
  done

end
