(* ===== verification/Verdicts.thy ===== *)
theory Verdicts imports Engine_Tables Scenario
begin

text \<open>
  The handling of an event and of a timeout from end to end, on a documented Redis server and a
  documented database together: what is in the map of windows, in Redis and in the tables when the
  handler returns \<open>Ok\<close>.
\<close>

locale engine_services = redis_server E view dbl + pg_server E tables
  for E :: "('r, 'p) env" and view :: "'r \<Rightarrow> rview" and dbl :: "int \<Rightarrow> int" and tables :: "'p \<Rightarrow> pg_tables"

interpretation memory: engine_services mem_env mem_view "\<lambda>i. i" "\<lambda>T. T"
  by (rule engine_services.intro) (rule mem.redis_server_axioms mem.pg_server_axioms)+

section \<open>Fresh events and registered sources\<close>

definition source_registered ::
  "('r, 'p) env \<Rightarrow> ('r \<Rightarrow> rview) \<Rightarrow> uuid \<Rightarrow> source \<Rightarrow> ('r, 'p) world \<Rightarrow> bool" where
  "source_registered E view tx src s \<longleftrightarrow>
     (\<exists>S t. cells (view (redis_st s)) (sources_key E tx) = Some (RSet S, t) \<and> source_name src \<in> S)"

definition fresh_event :: "('r, 'p) env \<Rightarrow> ('r \<Rightarrow> rview) \<Rightarrow> payment_event \<Rightarrow> ('r, 'p) world \<Rightarrow> bool" where
  "fresh_event E view e s \<longleftrightarrow> cells (view (redis_st s)) (dedup_key E (event_id e)) = None"

context redis_server
begin

lemma claim_fresh:
  assumes "cells (view (redis_st s)) (dedup_key E u) = None"
    and "run (try_claim_event E u ttl) s = (Inr b, s')"
  shows "b" and "windows s' = windows s" and "pg_st s' = pg_st s"
    and "k \<noteq> dedup_key E u \<Longrightarrow> leaves k (view (redis_st s)) (view (redis_st s'))"
proof -
  from assms(2) obtain x r where r: "set_nx_px (rds E) (dedup_key E u) ''1'' ttl (redis_st s) = (Inr x, r)"
    "s' = s\<lparr>redis_st := r\<rparr>" "b = (x \<noteq> None)"
    unfolding try_claim_event_def run_and_then_Inr run_rcall_Inr by (auto simp: run_simps)
  from set_nx_px_law r(1) obtain V where V: "rlater (view (redis_st s)) V"
    "sp_set_nx_px (dedup_key E u) ''1'' ttl V x (view r)"
    by (rule complies_ok)
  with assms(1) r(3) show b by (auto simp: sp_set_nx_px_def rlater_def split: if_splits)
  from r(2) show "windows s' = windows s" "pg_st s' = pg_st s" by simp_all
  show "leaves k (view (redis_st s)) (view (redis_st s'))" if "k \<noteq> dedup_key E u"
    using leaves_call[OF set_nx_px_law frame_set_nx_px r(1)] that r(2) by simp
qed

lemma register_step:
  assumes "run (try_register_source E tx src) s = (Inr b, s')"
  obtains V where "rlater (view (redis_st s)) V" and "clock V \<le> clock (view (redis_st s'))"
    and "case cells V (sources_key E tx) of None \<Rightarrow> b | Some (RSet S, t) \<Rightarrow> b = (source_name src \<notin> S) | _ \<Rightarrow> False"
    and "windows s' = windows s" and "pg_st s' = pg_st s"
proof -
  from assms obtain x r y r' where r: "sadd (rds E) (sources_key E tx) (source_name src) (redis_st s) = (Inr x, r)"
    "expire (rds E) (sources_key E tx) 60 r = (Inr y, r')" "s' = s\<lparr>redis_st := r'\<rparr>" "b = (x = 1)"
    unfolding try_register_source_def run_and_then_Inr run_rcall_Inr by (auto simp: run_simps)
  from sadd_law r(1) obtain V where V: "rlater (view (redis_st s)) V"
    "sp_sadd (sources_key E tx) (source_name src) V x (view r)"
    by (rule complies_ok)
  have "clock V = clock (view r)"
    using frame_sadd V(2) unfolding writes_only_def by metis
  moreover have "clock (view r) \<le> clock (view r')"
    using leaves_call[OF expire_law frame_expire r(2), of "'' '' @ sources_key E tx"] by (simp add: leaves_def)
  moreover have "case cells V (sources_key E tx) of None \<Rightarrow> b
      | Some (RSet S, t) \<Rightarrow> b = (source_name src \<notin> S) | _ \<Rightarrow> False"
    using V(2) r(4) by (auto simp: sp_sadd_def split: option.splits prod.splits rval.splits if_splits)
  ultimately show thesis using V(1) r(3) by (intro that) simp_all
qed

text \<open>An unregistered source is registered, a registered one is not, unless it expires first.\<close>

lemma register_fresh:
  assumes "\<not> source_registered E view tx src s" and "run (try_register_source E tx src) s = (Inr b, s')"
  shows b
  using assms(2)
proof (rule register_step)
  fix V
  assume "rlater (view (redis_st s)) V"
    and "case cells V (sources_key E tx) of None \<Rightarrow> b | Some (RSet S, t) \<Rightarrow> b = (source_name src \<notin> S) | _ \<Rightarrow> False"
  with assms(1) show b
    by (auto simp: source_registered_def rlater_def dest!: unexpired_Some split: option.splits rval.splits)
qed

lemma register_again:
  assumes "cells (view (redis_st s)) (sources_key E tx) = Some (RSet S, Some t)" and "source_name src \<in> S"
    and "run (try_register_source E tx src) s = (Inr b, s')" and "clock (view (redis_st s')) < t"
  shows "\<not> b"
  using assms(3)
proof (rule register_step)
  fix V
  assume "rlater (view (redis_st s)) V" and "clock V \<le> clock (view (redis_st s'))"
    and "case cells V (sources_key E tx) of None \<Rightarrow> b | Some (RSet S, t) \<Rightarrow> b = (source_name src \<notin> S) | _ \<Rightarrow> False"
  with assms(1,2,4) show "\<not> b"
    by (auto simp: rlater_def unexpired_def split: option.splits rval.splits if_splits)
qed

end

sublocale redis_server \<subseteq> keepval: task_invariant E cfg U X "{}"
  "\<lambda>s. queues_ok E view s \<and> deadline_of E view s tx = D" for cfg U X tx D
  by unfold_locales (simp_all add: step_keeps_deadline)

context redis_server
begin

text \<open>What a successful \<open>handle_event\<close> went through when its event id was fresh.\<close>

lemma handle_event_path:
  assumes "fresh_event E view (sm_event msg) s" and "run (handle_event E cfg msg) s = (Inr (), s')"
  obtains now b s1 s2 where
    "run (try_register_source E (pe_transaction_id (sm_event msg)) (pe_source (sm_event msg))) s1 = (Inr b, s2)"
    and "run (if \<not> b then handle_duplicate E cfg (sm_event msg)
              else add_to_window E cfg (sm_event msg) now) s2 = (Inr (), s')"
    and "leaves (sources_key E (pe_transaction_id (sm_event msg))) (view (redis_st s)) (view (redis_st s1))"
    and "windows s1 = windows s" and "pg_st s1 = pg_st s"
    and "windows s2 = windows s" and "pg_st s2 = pg_st s"
    and "\<And>u. queues_ok E view s \<Longrightarrow> windows_ok s \<Longrightarrow>
           keepval.inv u (deadline_of E view s u) s2"
    and "clock (view (redis_st s)) \<le> clock (view (redis_st s2))"
proof -
  let ?e = "sm_event msg" and ?ttl = "reconciler_dedup_window_ms cfg"
  let ?tx = "pe_transaction_id ?e"
  from assms(2) obtain c t where claim: "run (try_claim_event E (event_id ?e) ?ttl) s = (Inr c, t)"
    and rest: "run (if \<not> c then ok () else claimed_event E cfg ?e) t = (Inr (), s')"
    unfolding handle_event_def Let_def run_and_then_Inr run_lift_Inr by blast
  note fresh = claim_fresh[OF assms(1)[unfolded fresh_event_def] claim]
  from rest fresh(1) have "run (claimed_event E cfg ?e) t = (Inr (), s')" by simp
  then obtain now t1 b t2 where now: "run (utc_now E :: ('r, 'p, anyhow, i64) io) t = (Inr now, t1)"
    and reg: "run (try_register_source E ?tx (pe_source ?e)) t1 = (Inr b, t2)"
    and body: "run (if \<not> b then handle_duplicate E cfg ?e else add_to_window E cfg ?e now) t2 = (Inr (), s')"
    unfolding claimed_event_def run_and_then_Inr run_lift_Inr by blast
  from now have t1: "t1 = t\<lparr>reads := Suc (reads t)\<rparr>" by (simp add: run_utc_now)
  have "windows t2 = windows t1 \<and> pg_st t2 = pg_st t1"
    using reg by (rule register_step) simp
  moreover have "clock (view (redis_st t1)) \<le> clock (view (redis_st t2))"
    using reg by (rule register_step) (auto simp: rlater_def)
  moreover have "leaves (sources_key E ?tx) (view (redis_st s)) (view (redis_st t1))"
    using fresh(4)[of "sources_key E ?tx"] by (simp add: t1 sources_key_def dedup_key_def)
  moreover have "keepval.inv u (deadline_of E view s u) t2" if "queues_ok E view s" and "windows_ok s" for u
  proof -
    have "keepval.inv u (deadline_of E view s u) t"
      using keepval.run_keeps[OF keepval.safe_stores(1)[OF UNIV_I] _ that(2) claim] that(1) by blast
    then have "keepval.inv u (deadline_of E view s u) t1" by (simp add: t1 windows_ok_simps)
    with keepval.run_keeps[OF keepval.safe_stores(7)[OF UNIV_I] _ _ reg] show ?thesis by blast
  qed
  ultimately show thesis
    using fresh(2,3) by (intro that[OF reg body]) (auto simp: t1 leaves_def)
qed

lemma handle_event_new_source:
  assumes "fresh_event E view (sm_event msg) s" and "run (handle_event E cfg msg) s = (Inr (), s')"
    and "\<not> source_registered E view (pe_transaction_id (sm_event msg)) (pe_source (sm_event msg)) s"
  obtains now s2 where "run (add_to_window E cfg (sm_event msg) now) s2 = (Inr (), s')"
    and "windows s2 = windows s" and "pg_st s2 = pg_st s"
    and "\<And>u. queues_ok E view s \<Longrightarrow> windows_ok s \<Longrightarrow> keepval.inv u (deadline_of E view s u) s2"
    and "clock (view (redis_st s)) \<le> clock (view (redis_st s2))"
  using assms(1,2)
proof (rule handle_event_path)
  let ?e = "sm_event msg"
  fix now b s1 s2
  assume reg: "run (try_register_source E (pe_transaction_id ?e) (pe_source ?e)) s1 = (Inr b, s2)"
    and body: "run (if \<not> b then handle_duplicate E cfg ?e else add_to_window E cfg ?e now) s2 = (Inr (), s')"
    and sources: "leaves (sources_key E (pe_transaction_id ?e)) (view (redis_st s)) (view (redis_st s1))"
    and frame: "windows s2 = windows s" "pg_st s2 = pg_st s"
    and kept: "\<And>u. queues_ok E view s \<Longrightarrow> windows_ok s \<Longrightarrow> keepval.inv u (deadline_of E view s u) s2"
    and clock: "clock (view (redis_st s)) \<le> clock (view (redis_st s2))"
  have "\<not> source_registered E view (pe_transaction_id ?e) (pe_source ?e) s1"
    using sources assms(3) unfolding source_registered_def leaves_def by (metis unexpired_Some)
  from register_fresh[OF this reg] body
  have "run (add_to_window E cfg ?e now) s2 = (Inr (), s')" by simp
  then show thesis using frame kept clock by (rule that)
qed

end

section \<open>The event that completes a window\<close>

text \<open>A closed window stays closed while other things are recorded.\<close>

lemma closed_keys_no_footprint:
  "window_key E tx \<notin> footprint E {} {} \<union> zset_keys" "sources_key E tx \<notin> footprint E {} {} \<union> zset_keys"
  by (auto simp: footprint_def zset_keys_def window_key_def sources_key_def deadlines_key_def
      escalations_key_def counter_key_def)

sublocale redis_server \<subseteq> shut: task_invariant E cfg "{}" "{}" "{}"
  "\<lambda>s. queues_ok E view s \<and> window_closed E view tx s" for cfg tx
proof
  show "queues_ok E view (s\<lparr>redis_st := r\<rparr>) \<and> window_closed E view tx (s\<lparr>redis_st := r\<rparr>)"
    if "queues_ok E view s \<and> window_closed E view tx s" and step: "redis_steps E {} {} {} (redis_st s) r" for s r
    using that step_queues_ok[OF step] step_deadline_of[OF step]
      leaves_absent[OF step_leaves[OF step closed_keys_no_footprint(1)[of E tx]]]
      leaves_absent[OF step_leaves[OF step closed_keys_no_footprint(2)[of E tx]]]
    by (simp add: window_closed_def queues_ok_def)
qed (simp_all add: window_closed_def)

lemma verdict_stored_time [simp]: "verdict_stored (w\<lparr>processing_time_micros := t\<rparr>) = verdict_stored w"
proof -
  have "check_invariants (w\<lparr>processing_time_micros := t\<rparr>) = check_invariants w"
    by (simp add: check_invariants_def Let_def cong: option.case_cong if_cong)
  moreover have "build_details (w\<lparr>processing_time_micros := t\<rparr>) = build_details w"
    by (simp add: build_details_def Let_def cong: option.case_cong if_cong)
  ultimately show ?thesis by (simp add: verdict_stored_def fun_eq_iff)
qed

lemma hoare_ex:
  "(\<And>t. hoare (P t) p (\<lambda>_. P t) F) \<Longrightarrow> (\<And>t e s. F e s) \<Longrightarrow> hoare (\<lambda>s. \<exists>t. P t s) p (\<lambda>_ s. \<exists>t. P t s) F"
  unfolding hoare_def by (fastforce split: prod.splits sum.splits)

lemma keeps_if: "keeps I Q p \<Longrightarrow> keeps I Q q \<Longrightarrow> keeps I Q (if b then p else q)"
  by simp

lemma keeps_first:
  "keeps I Q p \<Longrightarrow> (\<And>x. hoare I (f x) R (\<lambda>_ _. True)) \<Longrightarrow> hoare I (and_then p f) R (\<lambda>_ _. True)"
  by (rule hoareI) (auto simp: run_and_then_Inr dest: keeps_run hoare_Inr)

context engine_services
begin

abbreviation settled :: "uuid \<Rightarrow> (pg_tables \<Rightarrow> bool) \<Rightarrow> ('r, 'p) world \<Rightarrow> bool" where
  "settled tx P s \<equiv> ((queues_ok E view s \<and> window_closed E view tx s) \<and> windows_ok s) \<and> on_tables tables P s"

abbreviation ready :: "('r, 'p) world \<Rightarrow> bool" where
  "ready s \<equiv> (queues_ok E view s \<and> windows_ok s) \<and> on_tables tables sequence_ok s"

lemma ready_first:
  assumes "queues.safe p" and "keeps (on_tables tables sequence_ok) (\<lambda>_. True) p"
    and "\<And>x. hoare ready (f x) Q (\<lambda>_ _. True)"
  shows "hoare ready (and_then p f) Q (\<lambda>_ _. True)"
  by (rule keeps_first[OF keeps_conj[OF assms(1,2)] assms(3)])

lemma settled_first:
  assumes "shut.safe tx p" and "keeps (on_tables tables P) (\<lambda>_. True) p"
    and "\<And>x. hoare (settled tx P) (f x) Q (\<lambda>_ _. True)"
  shows "hoare (settled tx P) (and_then p f) Q (\<lambda>_ _. True)"
  by (rule keeps_first[OF keeps_conj[OF assms(1,2)] assms(3)])

lemma settled_last:
  assumes "shut.safe tx p" and "keeps (on_tables tables P) (\<lambda>_. True) p"
  shows "hoare (settled tx P) p (\<lambda>_. settled tx P) (\<lambda>_ _. True)"
  by (rule hoare_post[OF keeps_hoare[OF keeps_conj[OF assms]]]) simp_all

lemma finalize_settles:
  "hoare ready (finalize_window E cfg w) (\<lambda>_. settled (pt_transaction_id w) (verdict_stored w)) (\<lambda>_ _. True)"
proof -
  have "hoare (\<lambda>s. queues_ok E view s \<and> windows_ok s) (finalize_window E cfg w)
     (\<lambda>_ s. queues_ok E view s \<and> windows_ok s) (\<lambda>_ _. True)"
    by (rule queues.safe_hoare[OF queues.safe_finalize[OF UNIV_I UNIV_I]])
  from hoare_conj[OF hoare_conj[OF this finalize_closes] finalize_stores_verdict] show ?thesis
    by (rule hoare_post[OF hoare_pre]) auto
qed

lemma settle_settles:
  assumes "is_complete w (expected_sources_count cfg)"
  shows "hoare ready (settle_window E cfg tx now w) (\<lambda>_. settled (pt_transaction_id w) (verdict_stored w)) (\<lambda>_ _. True)"
proof -
  have fin: "hoare ready (finalize_window E cfg (w\<lparr>processing_time_micros := t\<rparr>))
      (\<lambda>_. settled (pt_transaction_id w) (verdict_stored w)) (\<lambda>_ _. True)" for t
    using finalize_settles[of cfg "w\<lparr>processing_time_micros := t\<rparr>"] by simp
  show ?thesis
    unfolding settle_window_def Let_def if_P[OF assms]
    by (intro ready_first queues.safe_database tables_misc hoare_and_then[OF fin] hoare_ok)
qed

lemma tables_save: "keeps (on_tables tables P) (\<lambda>_. True) (save_window E w)"
  unfolding save_window_def by (intro tables_rules)

lemma tables_add_deadline: "keeps (on_tables tables P) (\<lambda>_. True) (add_deadline E tx d)"
  unfolding add_deadline_def by (intro tables_rules)

lemma completing_event:
  assumes "pe_transaction_id event = tx" and "windows s tx = Some w" and "ready s"
    and "is_complete (w\<lparr>events := (events w)(pe_source event \<mapsto> event)\<rparr>) (expected_sources_count cfg)"
    and "run (add_to_window E cfg event now) s = (Inr (), s')"
  shows "settled tx (verdict_stored (w\<lparr>events := (events w)(pe_source event \<mapsto> event)\<rparr>)) s'"
proof -
  let ?w = "w\<lparr>events := (events w)(pe_source event \<mapsto> event)\<rparr>"
  have "window_ok tx w" using assms(2,3) by (auto intro: windows_ok_simps)
  then have w: "window_ok tx ?w" and ident: "pt_transaction_id ?w = tx"
    using window_ok_simps(3)[OF _ assms(1)] window_ok_simps(1) by auto
  have settle: "hoare ready (settle_window E cfg tx now ?w) (\<lambda>_. settled tx (verdict_stored ?w)) (\<lambda>_ _. True)"
    using settle_settles[OF assms(4)] unfolding ident .
  have first_safe: "queues.safe (if b then and_then (lift (add_deadline E tx d))
      (\<lambda>_. emit E cfg (TransactionReceived tx (pe_source event) now)) else ok ())" for b d
    by (intro queues.safe_if queues.safe_and_then queues.safe_map_err queues.safe_stores(4)[OF UNIV_I]
        queues.safe_stores(10) queues.safe_ready)
  have first_tables: "keeps (on_tables tables sequence_ok) (\<lambda>_. True)
      (if b then and_then (lift (add_deadline E tx d))
        (\<lambda>_. emit E cfg (TransactionReceived tx (pe_source event) now)) else ok ())" for b d
    by (intro tables_if tables_rules tables_add_deadline tables_emit)
  let ?body = "and_then (if events_len (events w) = 0 then and_then (lift (add_deadline E tx (deadline_ms ?w)))
        (\<lambda>_. emit E cfg (TransactionReceived tx (pe_source event) now)) else ok ())
      (\<lambda>_. and_then (windows_insert tx ?w)
      (\<lambda>_. and_then (lift (save_window E ?w))
      (\<lambda>_. and_then (settle_window E cfg tx now ?w)
      (\<lambda>logic_micros. and_then (elapsed E)
      (\<lambda>total_micros. ignore (record_event_processed E (source_name (pe_source event))
          total_micros logic_micros))))))"
  have body: "hoare ready ?body (\<lambda>_. settled tx (verdict_stored ?w)) (\<lambda>_ _. True)"
  proof (intro ready_first[OF first_safe first_tables] ready_first[OF queues.safe_insert[OF UNIV_I w] tables_windows(1)]
      ready_first[OF queues.safe_map_err keeps_map_err] queues.safe_stores(2)[OF UNIV_I w] tables_save
      hoare_and_then[OF settle])
    fix l
    show "hoare (settled tx (verdict_stored ?w)) (and_then (elapsed E) (\<lambda>total_micros.
        ignore (record_event_processed E (source_name (pe_source event)) total_micros l)))
        (\<lambda>_. settled tx (verdict_stored ?w)) (\<lambda>_ _. True)"
      by (intro settled_first settled_last shut.safe_database shut.safe_ignore shut.safe_record
          tables_rules tables_misc)
  qed
  have "run ?body s = (Inr (), s')"
    using assms(1,2,5) by (simp add: add_to_window_def Let_def run_and_then windows_entry_def run_atomic)
  from hoare_Inr[OF body assms(3) this] show ?thesis .
qed

lemma completing_handle_event:
  assumes "ready s" and "fresh_event E view (sm_event msg) s"
    and "\<not> source_registered E view (pe_transaction_id (sm_event msg)) (pe_source (sm_event msg)) s"
    and "windows s (pe_transaction_id (sm_event msg)) = Some w"
    and "is_complete (w\<lparr>events := (events w)(pe_source (sm_event msg) \<mapsto> sm_event msg)\<rparr>)
           (expected_sources_count cfg)"
    and "run (handle_event E cfg msg) s = (Inr (), s')"
  shows "settled (pe_transaction_id (sm_event msg))
     (verdict_stored (w\<lparr>events := (events w)(pe_source (sm_event msg) \<mapsto> sm_event msg)\<rparr>)) s'"
  using assms(2,6,3)
proof (rule handle_event_new_source)
  let ?e = "sm_event msg"
  fix now s2
  assume add: "run (add_to_window E cfg ?e now) s2 = (Inr (), s')"
    and frame: "windows s2 = windows s" "pg_st s2 = pg_st s"
    and kept: "\<And>u. queues_ok E view s \<Longrightarrow> windows_ok s \<Longrightarrow> keepval.inv u (deadline_of E view s u) s2"
  have "ready s2" using kept assms(1) frame(2) by (simp add: on_tables_def)
  from completing_event[OF refl _ this assms(5) add] frame(1) assms(4) show ?thesis by simp
qed

text \<open>A second event of a source.\<close>

lemma duplicate_windows: "keeps (\<lambda>s. windows s = m) (\<lambda>_. True) (handle_duplicate E cfg event)"
  unfolding handle_duplicate_def persist_incident_def upsert_transaction_def create_incident_def
    add_escalation_def publish_event_def publish_def record_event_processed_def utc_now_def elapsed_def Let_def
  by (intro keeps_and_then[where Q = "\<lambda>_. True"] keeps_map_err keeps_ignore[where Q = "\<lambda>_. True"]
      keeps_redis_call keeps_pg_call keeps_read_clock keeps_lift_result keeps_ok TrueI keeps_if; simp)

lemma duplicate_handle_event:
  assumes "ready s" and "fresh_event E view (sm_event msg) s"
    and "cells (view (redis_st s)) (sources_key E (pe_transaction_id (sm_event msg))) = Some (RSet S, Some t)"
    and "source_name (pe_source (sm_event msg)) \<in> S"
    and "run (handle_event E cfg msg) s = (Inr (), s')" and "clock (view (redis_st s')) < t"
  shows "on_tables tables (duplicate_stored E (sm_event msg)) s' \<and> windows s' = windows s"
  using assms(2,5)
proof (rule handle_event_path)
  let ?e = "sm_event msg"
  fix now b s1 s2
  assume reg: "run (try_register_source E (pe_transaction_id ?e) (pe_source ?e)) s1 = (Inr b, s2)"
    and body: "run (if \<not> b then handle_duplicate E cfg ?e else add_to_window E cfg ?e now) s2 = (Inr (), s')"
    and sources: "leaves (sources_key E (pe_transaction_id ?e)) (view (redis_st s)) (view (redis_st s1))"
    and frame: "windows s2 = windows s" "pg_st s2 = pg_st s"
    and kept: "\<And>u. queues_ok E view s \<Longrightarrow> windows_ok s \<Longrightarrow>
           keepval.inv u (deadline_of E view s u) s2"
  have s2: "ready s2" using kept assms(1) frame(2) by (simp add: on_tables_def)
  have "tick.safe (clock (view (redis_st s2))) (if \<not> b then handle_duplicate E cfg ?e else add_to_window E cfg ?e now)"
    unfolding handle_duplicate_def Let_def
    by (intro tick.safe_if tick.safe_add_to_window[OF UNIV_I UNIV_I] tick.safe_and_then tick.safe_map_err
        tick.safe_database tick.safe_persist tick.safe_ignore tick.safe_record)
  from tick.run_keeps(1)[OF this _ _ body] s2
  have later: "clock (view (redis_st s2)) \<le> clock (view (redis_st s'))" by simp
  from reg have "clock (view (redis_st s1)) \<le> clock (view (redis_st s2))"
    by (rule register_step) (auto simp: rlater_def)
  with sources assms(3,6) later
  have "cells (view (redis_st s1)) (sources_key E (pe_transaction_id ?e)) = Some (RSet S, Some t)"
    by (auto simp: leaves_def unexpired_def)
  from register_again[OF this assms(4) reg] later assms(6) body
  have dup: "run (handle_duplicate E cfg ?e) s2 = (Inr (), s')" by simp
  have "on_tables tables sequence_ok s2" using s2 by simp
  from hoare_Inr[OF duplicate_stores this dup] keeps_run[OF duplicate_windows frame(1) dup]
  show ?thesis by simp
qed

end

context pg_server
begin

text \<open>A timeout: the verdict of what is there, or a degraded transaction.\<close>

lemma handle_timeout_stores:
  assumes "on_tables tables sequence_ok s" and "windows s tx = Some w"
    and "run (handle_timeout E cfg tx) s = (Inr (), s')"
  shows "on_tables tables (if is_complete w (expected_sources_count cfg) then verdict_stored w
      else degraded_stored cfg tx w) s'"
proof -
  let ?s0 = "s\<lparr>windows := (windows s)(tx := None)\<rparr>"
  have ok: "on_tables tables sequence_ok ?s0" using assms(1) by simp
  have "run (if is_complete w (expected_sources_count cfg) then finalize_window E cfg w
      else degrade_window E cfg tx w) ?s0 = (Inr (), s')"
    using assms(3) by (simp add: handle_timeout_def run_and_then windows_remove_def run_atomic assms(2))
  then show ?thesis
    using hoare_Inr[OF finalize_stores_verdict ok] hoare_Inr[OF degrade_stores ok]
    by (auto split: if_splits)
qed

end

section \<open>The events before that\<close>

text \<open>The events that have come for a transaction.\<close>

definition events_of :: "('r, 'p) world \<Rightarrow> uuid \<Rightarrow> event_map" where
  "events_of s tx = (case windows s tx of Some w \<Rightarrow> events w | None \<Rightarrow> Map.empty)"

text \<open>Most steps of a handler change neither a window nor the tables.\<close>

abbreviation same_windows :: "(uuid \<rightharpoonup> partial_transaction) \<Rightarrow> 'p \<Rightarrow> ('r, 'p) world \<Rightarrow> bool" where
  "same_windows m p s \<equiv> windows s = m \<and> pg_st s = p"

lemma same_redis: "keeps (same_windows m p) (\<lambda>_. True) (redis_call f)"
  by (rule keeps_redis_call) simp

lemma same_clock: "keeps (same_windows m p) (\<lambda>_. True) (read_clock f)"
  by (rule keeps_read_clock) simp

lemmas same_rules = keeps_and_then[where Q = "\<lambda>_. True"] keeps_map_err keeps_ignore[where Q = "\<lambda>_. True"]
  same_redis same_clock keeps_lift_result keeps_ok TrueI

lemma same_windows_keeps:
  "keeps (same_windows m p) (\<lambda>_. True) (save_window E w)"
  "keeps (same_windows m p) (\<lambda>_. True) (publish_event E ch ev)"
  "keeps (same_windows m p) (\<lambda>_. True) (elapsed E)"
  "keeps (same_windows m p) (\<lambda>_. True) (record_event_processed E src t l)"
  unfolding save_window_def publish_event_def publish_def elapsed_def record_event_processed_def
  by (intro same_rules)+

context redis_server
begin

abbreviation pending :: "uuid \<Rightarrow> int option \<Rightarrow> (uuid \<rightharpoonup> partial_transaction) \<Rightarrow> 'p \<Rightarrow> ('r, 'p) world \<Rightarrow> bool" where
  "pending tx D m p s \<equiv> ((queues_ok E view s \<and> deadline_of E view s tx = D) \<and> windows_ok s) \<and> same_windows m p s"

lemma pending_first:
  assumes "keepval.safe tx D q" and "keeps (same_windows m p) (\<lambda>_. True) q"
    and "\<And>x. hoare (pending tx D m p) (f x) Q (\<lambda>_ _. True)"
  shows "hoare (pending tx D m p) (and_then q f) Q (\<lambda>_ _. True)"
  by (rule keeps_first[OF keeps_conj[OF assms(1,2)] assms(3)])

lemma pending_last:
  assumes "keepval.safe tx D q" and "keeps (same_windows m p) (\<lambda>_. True) q"
  shows "hoare (pending tx D m p) q (\<lambda>_. pending tx D m p) (\<lambda>_ _. True)"
  by (rule hoare_post[OF keeps_hoare[OF keeps_conj[OF assms]]]) simp_all

lemma pending_insert:
  assumes "window_ok tx w" and "m' = m(tx \<mapsto> w)"
  shows "hoare (pending tx D m p) (windows_insert tx w) (\<lambda>_. pending tx D m' p) (\<lambda>_ _. True)"
  using assms by (auto simp: hoare_def windows_insert_def run_atomic intro: windows_ok_simps)

lemma set_deadline:
  "hoare (pending tx D m p) (lift (add_deadline E tx d)) (\<lambda>_. pending tx (Some (dbl (sint d))) m p) (\<lambda>_ _. True)"
proof (rule hoareI)
  fix s s' x
  assume P: "pending tx D m p s" and "run (lift (add_deadline E tx d)) s = (Inr x, s')"
  then have run: "run (add_deadline E tx d) s = (Inr (), s')" by (simp add: run_lift_Inr)
  have "queues_ok E view s'" "windows_ok s'"
    using queues.run_keeps[OF queues.safe_stores(4)[OF UNIV_I] _ _ run] P by simp_all
  moreover have "deadline_of E view s' tx = Some (dbl (sint d))"
    using dl.add_law[OF _ run] P by (simp add: queues_ok_def)
  moreover have "same_windows m p s'"
    using keeps_run[OF keeps_map_err[OF same_redis] _ run[unfolded add_deadline_def]] P by blast
  ultimately show "pending tx (Some (dbl (sint d))) m p s'" by simp
qed simp

lemma joining_settle:
  assumes "window_ok tx w" and "\<not> is_complete w (expected_sources_count cfg)"
  shows "hoare (pending tx D (m(tx \<mapsto> w)) p) (settle_window E cfg tx now w)
     (\<lambda>_ s. \<exists>t. pending tx D (m(tx \<mapsto> w\<lparr>processing_time_micros := t\<rparr>)) p s) (\<lambda>_ _. True)"
  unfolding settle_window_def Let_def if_not_P[OF assms(2)]
proof (intro pending_first[OF keepval.safe_stores(10) same_windows_keeps(2)]
    pending_first[OF keepval.safe_database(6) same_windows_keeps(3)])
  fix u :: unit and t
  let ?w = "w\<lparr>processing_time_micros := processing_time_micros w + t\<rparr>"
  have ins: "hoare (pending tx D (m(tx \<mapsto> w)) p) (windows_insert tx ?w)
      (\<lambda>_. pending tx D (m(tx \<mapsto> ?w)) p) (\<lambda>_ _. True)"
    by (rule pending_insert[OF window_ok_simps(4)[OF assms(1)]]) simp
  show "hoare (pending tx D (m(tx \<mapsto> w)) p) (and_then (windows_insert tx ?w)
      (\<lambda>_. and_then (lift (save_window E ?w)) (\<lambda>_. ok (processing_time_micros ?w))))
      (\<lambda>_ s. \<exists>t. pending tx D (m(tx \<mapsto> w\<lparr>processing_time_micros := t\<rparr>)) p s) (\<lambda>_ _. True)"
    by (intro hoare_and_then[OF ins] pending_first keepval.safe_map_err keeps_map_err
        keepval.safe_stores(2)[OF UNIV_I window_ok_simps(4)[OF assms(1)]] same_windows_keeps hoare_ok exI)
qed

lemma joining_event:
  assumes tx: "pe_transaction_id event = tx" and s: "queues_ok E view s" "windows_ok s"
    and found: "found = (case windows s tx of Some w \<Rightarrow> w | None \<Rightarrow> new_partial tx now (reconciler_timeout_ms cfg))"
    and w: "w = found\<lparr>events := (events found)(pe_source event \<mapsto> event)\<rparr>"
    and open_still: "\<not> is_complete w (expected_sources_count cfg)"
    and run: "run (add_to_window E cfg event now) s = (Inr (), s')"
  shows "\<exists>t. pending tx (if events_len (events found) = 0 then Some (dbl (sint (deadline_ms found)))
      else deadline_of E view s tx) ((windows s)(tx \<mapsto> w\<lparr>processing_time_micros := t\<rparr>)) (pg_st s) s'"
proof -
  let ?D = "if events_len (events found) = 0 then Some (dbl (sint (deadline_ms found))) else deadline_of E view s tx"
  let ?m = "(windows s)(tx \<mapsto> found)"
  have f: "window_ok tx found"
    using s(2) by (auto simp: found window_ok_simps(2) windows_ok_simps(5) split: option.split)
  have w_ok: "window_ok tx w" unfolding w by (rule window_ok_simps(3)[OF f tx])
  let ?entry = "windows_entry tx (new_partial tx now (reconciler_timeout_ms cfg))
      :: ('r, 'p, anyhow, partial_transaction) io"
  obtain s1 where entry: "run ?entry s = (Inr found, s1)"
    and s1: "pending tx (deadline_of E view s tx) ?m (pg_st s) s1"
    using s f by (cases "windows s tx")
      (auto simp: windows_entry_def run_atomic found queues_ok_def map_upd_triv intro: windows_ok_simps)
  have opened: "hoare (pending tx (deadline_of E view s tx) ?m (pg_st s))
      (if events_len (events found) = 0 then and_then (lift (add_deadline E tx (deadline_ms w)))
        (\<lambda>_. emit E cfg (TransactionReceived tx (pe_source event) now)) else ok ())
      (\<lambda>_. pending tx ?D ?m (pg_st s)) (\<lambda>_ _. True)"
  proof (cases "events_len (events found) = 0")
    case True
    have d: "deadline_ms w = deadline_ms found" by (simp add: w)
    show ?thesis
      unfolding if_P[OF True] d
      by (rule hoare_and_then[OF set_deadline pending_last[OF keepval.safe_stores(10) same_windows_keeps(2)]])
  next
    case False
    show ?thesis unfolding if_not_P[OF False] by (rule hoare_ok)
  qed
  have ins: "hoare (pending tx ?D ?m (pg_st s)) (windows_insert tx w)
      (\<lambda>_. pending tx ?D ((windows s)(tx \<mapsto> w)) (pg_st s)) (\<lambda>_ _. True)"
    by (rule pending_insert[OF w_ok]) simp
  let ?Q = "\<lambda>s'. \<exists>t. pending tx ?D ((windows s)(tx \<mapsto> w\<lparr>processing_time_micros := t\<rparr>)) (pg_st s) s'"
  have recording: "hoare ?Q (and_then (elapsed E) (\<lambda>total_micros.
      ignore (record_event_processed E (source_name (pe_source event)) total_micros l)))
      (\<lambda>_. ?Q) (\<lambda>_ _. True)" for l
    by (intro hoare_ex pending_first pending_last keepval.safe_database keepval.safe_ignore
        keepval.safe_record same_windows_keeps keeps_ignore[OF same_windows_keeps(4)] TrueI)
  have "hoare (pending tx (deadline_of E view s tx) ?m (pg_st s)) (and_then
      (if events_len (events found) = 0 then and_then (lift (add_deadline E tx (deadline_ms w)))
        (\<lambda>_. emit E cfg (TransactionReceived tx (pe_source event) now)) else ok ())
      (\<lambda>_. and_then (windows_insert tx w)
      (\<lambda>_. and_then (lift (save_window E w))
      (\<lambda>_. and_then (settle_window E cfg tx now w)
      (\<lambda>logic_micros. and_then (elapsed E)
      (\<lambda>total_micros. ignore (record_event_processed E (source_name (pe_source event))
          total_micros logic_micros))))))) (\<lambda>_. ?Q) (\<lambda>_ _. True)"
    by (intro hoare_and_then[OF opened] hoare_and_then[OF ins]
        pending_first[OF keepval.safe_map_err[OF keepval.safe_stores(2)[OF UNIV_I w_ok]] keeps_map_err[OF same_windows_keeps(1)]]
        hoare_and_then[OF joining_settle[OF w_ok open_still]] recording)
  moreover from run have "run (and_then
      (if events_len (events found) = 0 then and_then (lift (add_deadline E tx (deadline_ms w)))
        (\<lambda>_. emit E cfg (TransactionReceived tx (pe_source event) now)) else ok ())
      (\<lambda>_. and_then (windows_insert tx w)
      (\<lambda>_. and_then (lift (save_window E w))
      (\<lambda>_. and_then (settle_window E cfg tx now w)
      (\<lambda>logic_micros. and_then (elapsed E)
      (\<lambda>total_micros. ignore (record_event_processed E (source_name (pe_source event))
          total_micros logic_micros))))))) s1 = (Inr (), s')"
    by (simp only: add_to_window_def Let_def tx run_and_then[of ?entry] entry w prod.case sum.case)
  ultimately show ?thesis using s1 by (blast dest: hoare_Inr)
qed

lemma joining_handle_event:
  assumes tx: "pe_transaction_id (sm_event msg) = tx" and s: "queues_ok E view s" "windows_ok s"
    and "fresh_event E view (sm_event msg) s"
    and "\<not> source_registered E view tx (pe_source (sm_event msg)) s"
    and "events_len ((events_of s tx)(pe_source (sm_event msg) \<mapsto> sm_event msg)) < expected_sources_count cfg"
    and "run (handle_event E cfg msg) s = (Inr (), s')"
  obtains w t now where
    "w = (case windows s tx of Some w \<Rightarrow> w | None \<Rightarrow> new_partial tx now (reconciler_timeout_ms cfg))"
    and "pending tx (if events_len (events w) = 0 then Some (dbl (sint (deadline_ms w))) else deadline_of E view s tx)
      ((windows s)(tx \<mapsto> w\<lparr>events := (events w)(pe_source (sm_event msg) \<mapsto> sm_event msg),
         processing_time_micros := t\<rparr>)) (pg_st s) s'"
  using assms(4,7) assms(5)[folded tx]
proof (rule handle_event_new_source)
  let ?e = "sm_event msg"
  fix now s2
  assume add: "run (add_to_window E cfg ?e now) s2 = (Inr (), s')"
    and frame: "windows s2 = windows s" "pg_st s2 = pg_st s"
    and kept: "\<And>u. queues_ok E view s \<Longrightarrow> windows_ok s \<Longrightarrow> keepval.inv u (deadline_of E view s u) s2"
  obtain w where w: "w = (case windows s tx of Some w \<Rightarrow> w
      | None \<Rightarrow> new_partial tx now (reconciler_timeout_ms cfg))" by blast
  then have "events w = events_of s tx" by (simp add: events_of_def new_partial_def split: option.split)
  then have open_still: "\<not> is_complete (w\<lparr>events := (events w)(pe_source ?e \<mapsto> ?e)\<rparr>) (expected_sources_count cfg)"
    using assms(6) by (simp add: is_complete_def)
  have ok: "queues_ok E view s2" "windows_ok s2" "deadline_of E view s2 tx = deadline_of E view s tx"
    using kept[OF s, of tx] by simp_all
  note joined = joining_event[OF tx ok(1,2) w[folded frame(1)] refl open_still add, unfolded frame ok(3)]
  show thesis using joined by (elim exE) (rule that[OF w])
qed

end

section \<open>Properties\<close>

text \<open>C9. The event that completes a window settles the transaction: when the handler returns \<open>Ok\<close>,
  the window is closed everywhere, and the tables hold the verdict of \<open>check_invariants\<close> as the
  transaction's status, every detail of \<open>build_details\<close> and every incident found.\<close>

theorem completing_event_settles:
  assumes "redis_server E view dbl" and "pg_server E tables"
    and "queues_ok E view s" and "windows_ok s" and "sequence_ok (tables (pg_st s))"
    and "fresh_event E view (sm_event msg) s"
    and "\<not> source_registered E view (pe_transaction_id (sm_event msg)) (pe_source (sm_event msg)) s"
    and "windows s (pe_transaction_id (sm_event msg)) = Some w"
    and "is_complete (w\<lparr>events := (events w)(pe_source (sm_event msg) \<mapsto> sm_event msg)\<rparr>)
           (expected_sources_count cfg)"
    and "run (handle_event E cfg msg) s = (Inr (), s')"
  shows "window_closed E view (pe_transaction_id (sm_event msg)) s'
    \<and> verdict_stored (w\<lparr>events := (events w)(pe_source (sm_event msg) \<mapsto> sm_event msg)\<rparr>) (tables (pg_st s'))"
proof -
  have "(queues_ok E view s \<and> windows_ok s) \<and> on_tables tables sequence_ok s"
    using assms(3-5) by (simp add: on_tables_def)
  from engine_services.completing_handle_event[OF engine_services.intro[OF assms(1,2)] this assms(6-10)]
  show ?thesis by (simp add: on_tables_def)
qed

text \<open>The merchant's and the gateway's events are in, the bank's is next.\<close>

lemma two_events_fresh:
  "fresh_event mem_env mem_view (sm_event (mem_message 3 Bank a f)) two_events"
  "\<not> source_registered mem_env mem_view 7 Bank two_events"
  by (simp_all add: fresh_event_def source_registered_def two_events_eval services_eval scenario_eval
      dedup_key_def sources_key_def cell_view_def alive_def)

lemma mem_message_simps:
  "pe_transaction_id (sm_event (mem_message i src a f)) = 7" "pe_source (sm_event (mem_message i src a f)) = src"
  "event_id (sm_event (mem_message i src a f)) = i"
  by (simp_all add: scenario_eval)

theorem completing_event_settles_witness:
  "has_status 7 St_matched (pg_st (snd (run (handle_event mem_env mem_cfg (mem_message 3 Bank 90 0)) two_events)))"
proof -
  let ?m = "mem_message 3 Bank 90 0"
  obtain w where w: "windows two_events 7 = Some w" "pt_transaction_id w = 7"
    "events w = [Merchant \<mapsto> sm_event (mem_message 1 Merchant 100 0), Gateway \<mapsto> sm_event (mem_message 2 Gateway 100 10)]"
    by (simp add: two_events_eval)
  let ?w = "w\<lparr>events := (events w)(pe_source (sm_event ?m) \<mapsto> sm_event ?m)\<rparr>"
  have full: "is_complete ?w (expected_sources_count mem_cfg)"
    by (simp add: w mem_message_simps is_complete_def events_len_def source_all_def mem_cfg_def default_config_def)
  have matched: "check_invariants ?w = Matched"
    by (simp add: w check_invariants_def scenario_eval)
  have sequence: "sequence_ok (pg_st two_events)" by (simp add: sequence_ok_def two_events_eval)
  have found: "windows two_events (pe_transaction_id (sm_event ?m)) = Some w"
    by (simp add: mem_message_simps w)
  have new: "\<not> source_registered mem_env mem_view (pe_transaction_id (sm_event ?m)) (pe_source (sm_event ?m)) two_events"
    unfolding mem_message_simps by (rule two_events_fresh)
  have "run (handle_event mem_env mem_cfg ?m) two_events
      = (Inr (), snd (run (handle_event mem_env mem_cfg ?m) two_events))"
    using last_event_succeeds by (simp add: prod_eq_iff)
  from completing_event_settles[OF mem.redis_server_axioms mem.pg_server_axioms two_events_ok sequence
      two_events_fresh(1) new found full this]
  show ?thesis unfolding verdict_stored_def matched by (simp add: w)
qed

text \<open>C10. An event that does not complete its window joins it: when the handler returns \<open>Ok\<close>, the
  window of its transaction, opened if there was none, has the event added to what it had and is the
  only window that changed; no row is written; and its deadline is that of the window when it was
  empty, else what it was.\<close>

theorem event_joins_window:
  assumes "redis_server E view dbl" and "pe_transaction_id (sm_event msg) = tx"
    and "queues_ok E view s" and "windows_ok s" and "fresh_event E view (sm_event msg) s"
    and "\<not> source_registered E view tx (pe_source (sm_event msg)) s"
    and "events_len ((events_of s tx)(pe_source (sm_event msg) \<mapsto> sm_event msg)) < expected_sources_count cfg"
    and "run (handle_event E cfg msg) s = (Inr (), s')"
  shows "events_of s' tx = (events_of s tx)(pe_source (sm_event msg) \<mapsto> sm_event msg) \<and> windows s' tx \<noteq> None
    \<and> (\<forall>u. u \<noteq> tx \<longrightarrow> windows s' u = windows s u) \<and> pg_st s' = pg_st s
    \<and> deadline_of E view s' tx =
        (if events_of s tx = Map.empty then Some (dbl (sint (deadline_ms (the (windows s' tx)))))
         else deadline_of E view s tx)"
proof -
  obtain w t now where w: "w = (case windows s tx of Some w \<Rightarrow> w | None \<Rightarrow> new_partial tx now (reconciler_timeout_ms cfg))"
    and after: "((queues_ok E view s' \<and> deadline_of E view s' tx =
      (if events_len (events w) = 0 then Some (dbl (sint (deadline_ms w))) else deadline_of E view s tx)) \<and> windows_ok s')
      \<and> windows s' = (windows s)(tx \<mapsto> w\<lparr>events := (events w)(pe_source (sm_event msg) \<mapsto> sm_event msg),
         processing_time_micros := t\<rparr>) \<and> pg_st s' = pg_st s"
    by (rule redis_server.joining_handle_event[OF assms])
  have "events w = events_of s tx" by (simp add: w events_of_def new_partial_def split: option.split)
  moreover have "events_len (events_of s tx) = 0 \<longleftrightarrow> events_of s tx = Map.empty"
    by (simp add: events_len_card)
  ultimately show ?thesis using after by (simp add: events_of_def)
qed

theorem event_joins_window_witness:
  "events_of two_events 7 =
     [Merchant \<mapsto> sm_event (mem_message 1 Merchant 100 0), Gateway \<mapsto> sm_event (mem_message 2 Gateway 100 10)]
   \<and> deadline_of mem_env mem_view two_events 7 = deadline_of mem_env mem_view one_event 7"
proof -
  let ?m = "mem_message 2 Gateway 100 10"
  have before: "events_of one_event 7 = [Merchant \<mapsto> sm_event (mem_message 1 Merchant 100 0)]"
    by (simp add: events_of_def one_event_eval scenario_eval)
  have fresh: "fresh_event mem_env mem_view (sm_event ?m) one_event"
    "\<not> source_registered mem_env mem_view 7 (pe_source (sm_event ?m)) one_event"
    by (simp_all add: fresh_event_def source_registered_def one_event_eval services_eval scenario_eval
        dedup_key_def sources_key_def cell_view_def alive_def)
  have more: "events_len ((events_of one_event 7)(pe_source (sm_event ?m) \<mapsto> sm_event ?m))
      < expected_sources_count mem_cfg"
    by (simp add: before events_len_def source_all_def scenario_eval)
  from event_joins_window[OF mem.redis_server_axioms mem_message_simps(1) one_event_ok fresh more two_events_run]
  show ?thesis by (simp add: before mem_message_simps)
qed

text \<open>C7. What a timeout records: when the handler returns \<open>Ok\<close> for an open window, the tables hold
  the verdict if the window was complete after all; otherwise the transaction is degraded, the details
  of the sources that did report are stored, and an incident names the missing ones.\<close>

theorem timeout_records_outcome:
  assumes "pg_server E tables" and "sequence_ok (tables (pg_st s))" and "windows s tx = Some w"
    and "run (handle_timeout E cfg tx) s = (Inr (), s')"
  shows "if is_complete w (expected_sources_count cfg) then verdict_stored w (tables (pg_st s'))
     else degraded_stored cfg tx w (tables (pg_st s'))"
proof -
  have "on_tables tables sequence_ok s" using assms(2) by (simp add: on_tables_def)
  from pg_server.handle_timeout_stores[OF assms(1) this assms(3,4)]
  show ?thesis by (auto simp: on_tables_def split: if_splits)
qed

theorem timeout_records_outcome_witness:
  "\<exists>w. windows one_event 7 = Some w
     \<and> degraded_stored mem_cfg 7 w (pg_st (snd (run (handle_timeout mem_env mem_cfg 7) one_event)))"
proof -
  obtain w where w: "windows one_event 7 = Some w" "\<not> is_complete w (expected_sources_count mem_cfg)"
    by (simp add: one_event_eval is_complete_def events_len_def source_all_def scenario_eval)
  have "run (handle_timeout mem_env mem_cfg 7) one_event
      = (Inr (), snd (run (handle_timeout mem_env mem_cfg 7) one_event))"
    using one_event_timeout by (simp add: prod_eq_iff)
  from timeout_records_outcome[OF mem.pg_server_axioms _ w(1) this] w show ?thesis
    by (simp add: one_event_eval sequence_ok_def)
qed

text \<open>C11. A second event of a source, while the first is registered, opens or changes no window: the
  transaction is set back to pending, whatever was stored, and a duplicate incident is recorded.\<close>

theorem duplicate_event_reported:
  assumes "redis_server E view dbl" and "pg_server E tables"
    and "queues_ok E view s" and "windows_ok s" and "sequence_ok (tables (pg_st s))"
    and "fresh_event E view (sm_event msg) s"
    and "cells (view (redis_st s)) (sources_key E (pe_transaction_id (sm_event msg))) = Some (RSet S, Some t)"
    and "source_name (pe_source (sm_event msg)) \<in> S"
    and "run (handle_event E cfg msg) s = (Inr (), s')" and "clock (view (redis_st s')) < t"
  shows "windows s' = windows s \<and> duplicate_stored E (sm_event msg) (tables (pg_st s'))"
proof -
  have "(queues_ok E view s \<and> windows_ok s) \<and> on_tables tables sequence_ok s"
    using assms(3-5) by (simp add: on_tables_def)
  from engine_services.duplicate_handle_event[OF engine_services.intro[OF assms(1,2)] this assms(6-10)]
  show ?thesis by (simp add: on_tables_def)
qed

theorem duplicate_event_reported_witness:
  "has_status 7 St_pending (pg_st (snd (run (handle_event mem_env mem_cfg (mem_message 2 Merchant 5 0)) one_event)))"
proof -
  let ?m = "mem_message 2 Merchant 5 0"
  let ?r = "run (handle_event mem_env mem_cfg ?m) one_event"
  have fresh: "fresh_event mem_env mem_view (sm_event ?m) one_event"
    by (simp add: fresh_event_def one_event_eval services_eval scenario_eval dedup_key_def cell_view_def alive_def)
  have registered: "cells (mem_view (redis_st one_event)) (sources_key mem_env (pe_transaction_id (sm_event ?m)))
      = Some (RSet {''merchant''}, Some 60000)"
    by (simp add: one_event_eval services_eval scenario_eval sources_key_def cell_view_def alive_def)
  have mine: "source_name (pe_source (sm_event ?m)) \<in> {''merchant''}" by (simp add: mem_message_simps)
  have outcome: "fst ?r = Inr () \<and> m_clock (redis_st (snd ?r)) = 0"
    by (simp add: one_event_eval ordered_eval log_eval scenario_eval cong: ordered_congs)
  then have "?r = (Inr (), snd ?r)" by (simp add: prod_eq_iff)
  note reported = duplicate_event_reported[OF mem.redis_server_axioms mem.pg_server_axioms one_event_ok _ fresh
      registered mine this]
  have "sequence_ok (pg_st one_event)" by (simp add: one_event_eval sequence_ok_def)
  from reported[OF this] outcome show ?thesis
    by (simp add: duplicate_stored_def mem_message_simps)
qed

end
