(* ===== verification/Three_Events.thy ===== *)
theory Three_Events imports Verdicts
begin

text \<open>
  One transaction from its first event to its verdict: which sources a handler registers, and the
  composition of the handlers of three events.
\<close>

section \<open>The registered sources\<close>

definition sources_within ::
  "('r, 'p) env \<Rightarrow> ('r \<Rightarrow> rview) \<Rightarrow> uuid \<Rightarrow> source set \<Rightarrow> ('r, 'p) world \<Rightarrow> bool" where
  "sources_within E view tx R s \<longleftrightarrow>
     (\<forall>e. cells (view (redis_st s)) (sources_key E tx) = Some e \<longrightarrow>
        (\<exists>S t. e = (RSet S, t) \<and> S \<subseteq> source_name ` R))"

lemma within_frames [simp]:
  "sources_within E view tx R (s\<lparr>pg_st := p\<rparr>) = sources_within E view tx R s"
  "sources_within E view tx R (s\<lparr>reads := n\<rparr>) = sources_within E view tx R s"
  "sources_within E view tx R (s\<lparr>windows := m\<rparr>) = sources_within E view tx R s"
  by (simp_all add: sources_within_def)

lemma leaves_Some: "leaves k V V' \<Longrightarrow> cells V' k = Some e \<Longrightarrow> cells V k = Some e"
  unfolding leaves_def by (metis unexpired_Some)

lemma within_leaves:
  "sources_within E view tx R s \<Longrightarrow> leaves (sources_key E tx) (view (redis_st s)) (view r) \<Longrightarrow>
     sources_within E view tx R (s\<lparr>redis_st := r\<rparr>)"
  by (auto simp: sources_within_def dest: leaves_Some)

lemma within_mono:
  "sources_within E view tx R s \<Longrightarrow> R \<subseteq> R' \<Longrightarrow> sources_within E view tx R' s"
  unfolding sources_within_def by (meson image_mono subset_trans)

context redis_server
begin

abbreviation "within tx R \<equiv> keeps (sources_within E view tx R) (\<lambda>_. True)"

lemma within_other:
  assumes "complies view rlater f P" and "writes_only K P" and "sources_key E tx \<notin> K"
  shows "within tx R (redis_call f)"
  by (rule keeps_redis_call) (auto intro: within_leaves leaves_call[OF assms(1,2) _ assms(3)])

lemma within_own:
  assumes "complies view rlater f P"
    and "\<And>V x V'. (\<And>e. cells V (sources_key E tx) = Some e \<Longrightarrow> \<exists>S t. e = (RSet S, t) \<and> S \<subseteq> source_name ` R) \<Longrightarrow>
          P V x V' \<Longrightarrow>
          (\<And>e. cells V' (sources_key E tx) = Some e \<Longrightarrow> \<exists>S t. e = (RSet S, t) \<and> S \<subseteq> source_name ` R)"
  shows "within tx R (redis_call f)"
proof (rule keeps_redis_call)
  fix s x r
  assume I: "sources_within E view tx R s" and f: "f (redis_st s) = (x, r)"
  have later: "cells V (sources_key E tx) = Some e \<Longrightarrow> \<exists>S t. e = (RSet S, t) \<and> S \<subseteq> source_name ` R"
    if "rlater (view (redis_st s)) V" for V e
    using I that unfolding sources_within_def rlater_def by (metis unexpired_Some wait_until_simps(2))
  from assms(1) f show "sources_within E view tx R (s\<lparr>redis_st := r\<rparr>)"
  proof (cases rule: complies_any)
    case (same V)
    with later[OF same(1)] show ?thesis by (simp add: sources_within_def)
  next
    case (effect V y)
    from assms(2)[OF later[OF effect(1)] effect(2)] show ?thesis by (simp add: sources_within_def)
  qed
qed

lemma within_pg: "within tx R (pg_call f)"
  by (rule keeps_pg_call) simp

lemma within_clock: "within tx R (read_clock f)"
  by (rule keeps_read_clock) simp

lemma within_windows:
  "within tx R (windows_insert u w)" "within tx R (windows_remove u)" "within tx R (windows_entry u w)"
  unfolding windows_insert_def windows_remove_def windows_entry_def
  by (rule keeps_atomic; auto split: option.splits)+

lemmas within_rules = keeps_and_then[where Q = "\<lambda>_. True"] keeps_map_err
  keeps_ignore[where Q = "\<lambda>_. True"] keeps_for_each keeps_lift_result keeps_ok keeps_if TrueI
  within_pg within_clock within_windows

lemma within_stores:
  "within tx R (try_claim_event E u ttl)" "within tx R (save_window E w)"
  "within tx R (delete_window E u)" "within tx R (add_deadline E u d)"
  "within tx R (remove_deadline E u)" "within tx R (add_escalation E i d)"
  "within tx R (record_match_result E b)" "within tx R (publish_event E ch ev)"
  "within tx R (record_event_processed E src t l)"
  unfolding try_claim_event_def save_window_def delete_window_def add_deadline_def remove_deadline_def
    add_escalation_def record_match_result_def publish_event_def publish_def record_event_processed_def
  by (intro within_rules within_other[OF set_nx_px_law frame_set_nx_px] within_other[OF set_px_law frame_set_px]
      within_other[OF del_law frame_del] within_other[OF zadd_law frame_zadd] within_other[OF zrem_law frame_zrem]
      within_other[OF zadd_i64_law frame_zadd] within_other[OF incr_law frame_incr]
      within_other[OF publish_law frame_publish] within_other[OF setex_law frame_setex]
      within_other[OF lpush_law frame_lpush] within_other[OF ltrim_law frame_ltrim]
      within_other[OF expire_law frame_expire];
      simp add: sources_key_def dedup_key_def window_key_def deadlines_key_def escalations_key_def)+

lemma within_database:
  "within tx R (upsert_transaction E u st cur ty mid ms)" "within tx R (upsert_reconciliation_details E u ds)"
  "within tx R (create_incident E i)" "within tx R (utc_now E)" "within tx R (elapsed E)"
  unfolding upsert_transaction_def upsert_reconciliation_details_def create_incident_def utc_now_def elapsed_def
  by (intro within_rules)+

lemma within_register:
  assumes "src \<in> R"
  shows "within tx R (try_register_source E tx src)"
  unfolding try_register_source_def
  by (intro within_rules within_own[OF sadd_law] within_own[OF expire_law])
    (use assms in \<open>fastforce simp: sp_sadd_def sp_expire_def split: option.splits rval.splits prod.splits if_splits\<close>)+

lemma within_cleanup_sources: "within tx R (cleanup_sources E u)"
proof (cases "u = tx")
  case True
  show ?thesis unfolding cleanup_sources_def True
    by (intro within_rules within_own[OF del_law]) (simp add: sp_del_def)
next
  case False
  then show ?thesis unfolding cleanup_sources_def
    by (intro within_rules within_other[OF del_law frame_del]) (simp add: sources_key_def uuid_str_inject)
qed

lemma within_persist: "within tx R (persist_incident E cfg i)"
  unfolding persist_incident_def by (intro within_rules within_stores within_database)

lemma within_cleanup: "within tx R (cleanup_window E u)"
  unfolding cleanup_window_def by (intro within_rules within_stores within_cleanup_sources)

lemma within_report: "within tx R (report_result E cfg u now result)"
  unfolding report_result_def
  by (cases result; simp; intro within_rules within_stores within_persist)

lemma within_finalize: "within tx R (finalize_window E cfg w)"
  unfolding finalize_window_def Let_def
  by (intro within_rules within_stores within_database within_report within_cleanup)

lemma within_settle: "within tx R (settle_window E cfg u now w)"
  unfolding settle_window_def Let_def
  by (intro within_rules within_stores within_database within_finalize)

lemma within_add_to_window: "within tx R (add_to_window E cfg event now)"
  unfolding add_to_window_def Let_def
  by (intro within_rules within_stores within_database within_settle)

lemma within_handle_event:
  assumes "pe_source (sm_event msg) \<in> R" and "pe_transaction_id (sm_event msg) = tx"
  shows "within tx R (handle_event E cfg msg)"
  unfolding handle_event_def claimed_event_def handle_duplicate_def Let_def assms(2)
  by (intro within_rules within_stores within_database within_register[OF assms(1)] within_persist
      within_add_to_window)

lemma within_unregistered:
  assumes "sources_within E view tx R s" and "src \<notin> R"
  shows "\<not> source_registered E view tx src s"
proof
  assume "source_registered E view tx src s"
  with assms(1) have "source_name src \<in> source_name ` R"
    unfolding source_registered_def sources_within_def by blast
  with assms(2) show False by (auto simp: inj_image_mem_iff source_name_inject)
qed

lemma fresh_later:
  assumes "queues_ok E view s" and "windows_ok s" and "run (handle_event E cfg msg) s = (res, s')"
    and "fresh_event E view e s" and "event_id e \<noteq> event_id (sm_event msg)"
  shows "fresh_event E view e s'"
proof -
  have "leaves (dedup_key E (event_id e)) (view (redis_st s)) (view (redis_st s'))"
    using handle_event_confined[OF assms(1-3)]
      dedup_footprint[of "event_id e" "{event_id (sm_event msg)}" "{pe_transaction_id (sm_event msg)}"] assms(5)
    by (simp add: confined_def)
  from leaves_absent[OF this] assms(4) show ?thesis by (simp add: fresh_event_def)
qed

end

context engine_services
begin

text \<open>One event more, in a window that stays open.\<close>

lemma join_step:
  assumes s: "ready s" "sources_within E view tx R s" and tx: "pe_transaction_id (sm_event m) = tx"
    and new: "fresh_event E view (sm_event m) s" "pe_source (sm_event m) \<notin> R"
    and short: "events_len ((events_of s tx)(pe_source (sm_event m) \<mapsto> sm_event m)) < expected_sources_count cfg"
    and run: "run (handle_event E cfg m) s = (Inr (), s')"
  shows "ready s'" and "sources_within E view tx (insert (pe_source (sm_event m)) R) s'"
    and "events_of s' tx = (events_of s tx)(pe_source (sm_event m) \<mapsto> sm_event m)" and "windows s' tx \<noteq> None"
    and "fresh_event E view e s \<Longrightarrow> event_id e \<noteq> event_id (sm_event m) \<Longrightarrow> fresh_event E view e s'"
proof -
  have ok: "queues_ok E view s" "windows_ok s" using s(1) by simp_all
  note path = joining_handle_event[OF tx ok new(1) within_unregistered[OF s(2) new(2)] short run]
  obtain w t now where w: "w = (case windows s tx of Some w \<Rightarrow> w | None \<Rightarrow> new_partial tx now (reconciler_timeout_ms cfg))"
    and after: "pending tx (if events_len (events w) = 0 then Some (dbl (sint (deadline_ms w))) else deadline_of E view s tx)
      ((windows s)(tx \<mapsto> w\<lparr>events := (events w)(pe_source (sm_event m) \<mapsto> sm_event m),
         processing_time_micros := t\<rparr>)) (pg_st s) s'"
    by (rule path)
  have "events w = events_of s tx" unfolding w by (simp add: events_of_def new_partial_def split: option.split)
  with after show "events_of s' tx = (events_of s tx)(pe_source (sm_event m) \<mapsto> sm_event m)" "windows s' tx \<noteq> None"
    by (simp_all add: events_of_def)
  from after s(1) show "ready s'" by (simp add: on_tables_def)
  have "sources_within E view tx (insert (pe_source (sm_event m)) R) s"
    using s(2) by (rule within_mono) (rule subset_insertI)
  from keeps_run[OF within_handle_event[OF insertI1 tx] this run]
  show "sources_within E view tx (insert (pe_source (sm_event m)) R) s'" by blast
  show "fresh_event E view e s'" if "fresh_event E view e s" and "event_id e \<noteq> event_id (sm_event m)"
    by (rule fresh_later[OF ok run that])
qed

end

text \<open>The three events of a transaction, in whatever order their sources send them.\<close>

definition event_triple :: "stream_message \<Rightarrow> stream_message \<Rightarrow> stream_message \<Rightarrow> event_map" where
  "event_triple m1 m2 m3 = [pe_source (sm_event m1) \<mapsto> sm_event m1, pe_source (sm_event m2) \<mapsto> sm_event m2,
     pe_source (sm_event m3) \<mapsto> sm_event m3]"

lemma event_triple_len:
  assumes "distinct (map (pe_source \<circ> sm_event) [m1, m2, m3])"
  shows "events_len [pe_source (sm_event m1) \<mapsto> sm_event m1] = 1"
    and "events_len [pe_source (sm_event m1) \<mapsto> sm_event m1, pe_source (sm_event m2) \<mapsto> sm_event m2] = 2"
    and "events_len (event_triple m1 m2 m3) = 3"
  using assms by (auto simp: event_triple_def events_len_card)

context engine_services
begin

lemma three_events:
  assumes s: "ready s" "window_closed E view tx s" and "expected_sources_count cfg = 3"
    and m: "\<forall>m \<in> {m1, m2, m3}. pe_transaction_id (sm_event m) = tx \<and> fresh_event E view (sm_event m) s"
    and ids: "distinct (map (event_id \<circ> sm_event) [m1, m2, m3])"
    and srcs: "distinct (map (pe_source \<circ> sm_event) [m1, m2, m3])"
    and runs: "run (for_each [m1, m2, m3] (handle_event E cfg)) s = (Inr (), s')"
  shows "\<exists>w. pt_transaction_id w = tx \<and> events w = event_triple m1 m2 m3 \<and> settled tx (verdict_stored w) s'"
proof -
  from runs obtain s1 s2 where r: "run (handle_event E cfg m1) s = (Inr (), s1)"
    "run (handle_event E cfg m2) s1 = (Inr (), s2)" "run (handle_event E cfg m3) s2 = (Inr (), s')"
    by (auto simp: run_and_then_Inr)
  note len = event_triple_len[OF srcs]
  have none: "sources_within E view tx {} s" "events_of s tx = Map.empty"
    using s(2) by (simp_all add: sources_within_def window_closed_def events_of_def)
  have tx: "pe_transaction_id (sm_event m1) = tx" "pe_transaction_id (sm_event m2) = tx"
    "pe_transaction_id (sm_event m3) = tx" using m by simp_all
  have f: "fresh_event E view (sm_event m1) s" "fresh_event E view (sm_event m2) s"
    "fresh_event E view (sm_event m3) s" using m by simp_all
  have neq: "event_id (sm_event m2) \<noteq> event_id (sm_event m1)" "event_id (sm_event m3) \<noteq> event_id (sm_event m1)"
    "event_id (sm_event m3) \<noteq> event_id (sm_event m2)" using ids by auto
  note j1 = join_step[OF s(1) none(1) tx(1) f(1) _ _ r(1)]
  have one: "ready s1" "sources_within E view tx {pe_source (sm_event m1)} s1"
    "events_of s1 tx = [pe_source (sm_event m1) \<mapsto> sm_event m1]"
    "fresh_event E view (sm_event m2) s1" "fresh_event E view (sm_event m3) s1"
    using j1 f(2,3) neq by (simp_all add: none(2) len assms(3))
  have new2: "pe_source (sm_event m2) \<notin> {pe_source (sm_event m1)}" using srcs by auto
  note j2 = join_step[OF one(1,2) tx(2) one(4) new2 _ r(2)]
  have two: "ready s2" "sources_within E view tx {pe_source (sm_event m2), pe_source (sm_event m1)} s2"
    "events_of s2 tx = [pe_source (sm_event m1) \<mapsto> sm_event m1, pe_source (sm_event m2) \<mapsto> sm_event m2]"
    "windows s2 tx \<noteq> None" "fresh_event E view (sm_event m3) s2"
    using j2 one(5) neq by (simp_all add: one(3) len assms(3))
  from two(4) obtain w where w: "windows s2 tx = Some w" by blast
  have "window_ok tx w" using two(1) w by (auto intro: windows_ok_simps)
  then have ident: "pt_transaction_id w = tx" by (rule window_ok_simps)
  have trip: "(events w)(pe_source (sm_event m3) \<mapsto> sm_event m3) = event_triple m1 m2 m3"
    using two(3) w by (simp add: events_of_def event_triple_def)
  have new3: "\<not> source_registered E view (pe_transaction_id (sm_event m3)) (pe_source (sm_event m3)) s2"
    unfolding tx by (rule within_unregistered[OF two(2)]) (use srcs in auto)
  have full: "is_complete (w\<lparr>events := (events w)(pe_source (sm_event m3) \<mapsto> sm_event m3)\<rparr>) (expected_sources_count cfg)"
    by (simp add: is_complete_def trip len(3) assms(3))
  from completing_handle_event[OF two(1,5) new3 w[folded tx(3)] full r(3)] ident show ?thesis
    unfolding tx trip by (intro exI[of _ "w\<lparr>events := event_triple m1 m2 m3\<rparr>"]) simp
qed

end

section \<open>Properties\<close>

text \<open>C1. From first event to verdict: when the events of the three sources of a transaction are
  handled, in any order, and every handler returns \<open>Ok\<close>, the window is closed everywhere and the tables
  hold the verdict, the details and the incidents for exactly those three events.\<close>

theorem three_events_reconciled:
  assumes "redis_server E view dbl" and "pg_server E tables"
    and "queues_ok E view s" and "windows_ok s" and "sequence_ok (tables (pg_st s))"
    and "expected_sources_count cfg = 3" and "window_closed E view tx s"
    and "\<forall>m \<in> {m1, m2, m3}. pe_transaction_id (sm_event m) = tx \<and> fresh_event E view (sm_event m) s"
    and "distinct (map (event_id \<circ> sm_event) [m1, m2, m3])"
    and "distinct (map (pe_source \<circ> sm_event) [m1, m2, m3])"
    and "run (for_each [m1, m2, m3] (handle_event E cfg)) s = (Inr (), s')"
  shows "window_closed E view tx s'
    \<and> (\<exists>w. pt_transaction_id w = tx \<and> events w = event_triple m1 m2 m3 \<and> verdict_stored w (tables (pg_st s')))"
proof -
  have "(queues_ok E view s \<and> windows_ok s) \<and> on_tables tables sequence_ok s"
    using assms(3-5) by (simp add: on_tables_def)
  from engine_services.three_events[OF engine_services.intro[OF assms(1,2)] this assms(7,6,8-11)]
  show ?thesis by (auto simp: on_tables_def)
qed

theorem three_events_reconciled_witness:
  "has_status 7 St_matched (pg_st (snd (run (for_each [mem_message 1 Merchant 100 0, mem_message 2 Gateway 100 10,
     mem_message 3 Bank 90 0] (handle_event mem_env mem_cfg)) mem_start)))"
proof -
  let ?m1 = "mem_message 1 Merchant 100 0" and ?m2 = "mem_message 2 Gateway 100 10" and ?m3 = "mem_message 3 Bank 90 0"
  let ?r = "run (for_each [?m1, ?m2, ?m3] (handle_event mem_env mem_cfg)) mem_start"
  have outcome: "?r = (Inr (), snd ?r)"
    using last_event_succeeds
    by (cases "run (handle_event mem_env mem_cfg ?m3) two_events")
      (simp add: run_and_then one_event_run two_events_run run.simps(1))
  have three: "expected_sources_count mem_cfg = 3" by (simp add: scenario_eval)
  have closed: "window_closed mem_env mem_view 7 mem_start"
    by (simp add: window_closed_def deadline_of_def zmembers_def zset_of_def mem_start_def mem_lookup_def cell_view_def)
  have fresh: "\<forall>m \<in> {?m1, ?m2, ?m3}. pe_transaction_id (sm_event m) = 7
      \<and> fresh_event mem_env mem_view (sm_event m) mem_start"
    by (simp add: mem_message_simps fresh_event_def mem_start_def mem_lookup_def cell_view_def)
  have ids: "distinct (map (event_id \<circ> sm_event) [?m1, ?m2, ?m3])"
    and srcs: "distinct (map (pe_source \<circ> sm_event) [?m1, ?m2, ?m3])"
    by (simp_all add: mem_message_simps)
  have sequence: "sequence_ok (pg_st mem_start)" by (simp add: sequence_ok_def mem_start_def)
  from three_events_reconciled[OF mem.redis_server_axioms mem.pg_server_axioms mem_start_ok(1,2) sequence three
      closed fresh ids srcs outcome]
  obtain w where w: "pt_transaction_id w = 7" "events w = event_triple ?m1 ?m2 ?m3" "verdict_stored w (pg_st (snd ?r))"
    by blast
  have "check_invariants w = Matched"
    by (simp add: w(2) check_invariants_def event_triple_def scenario_eval)
  with w(1,3) show ?thesis by (simp add: verdict_stored_def)
qed

end
