(* ===== verification/Timeout_Pass.thy ===== *)
theory Timeout_Pass imports Window_Lifecycle "HOL-Library.Multiset"
begin

text \<open>
  The pass over the expired windows as the code runs it: one spawned task per transaction in a set of
  at most 50 (\<open>joinset 50\<close>), in any order of their steps. Every execution ends, closes every window
  it was given in the map and no other, also when tasks fail; and a window whose timeout failed is gone.
\<close>

section \<open>Executions of a bounded set of tasks end\<close>

definition next_part :: "(('s, 'e, 'a) proc \<times> ('s, 'e, 'a) proc) set" where
  "next_part = {(fst (g s), Await g) | g s. True}"

lemma next_part_wf: "wf (next_part :: (('s, 'e, 'a) proc \<times> ('s, 'e, 'a) proc) set)"
proof (rule wfUNIVI)
  fix P :: "('s, 'e, 'a) proc \<Rightarrow> bool" and p
  assume "\<forall>x. (\<forall>y. (y, x) \<in> next_part \<longrightarrow> P y) \<longrightarrow> P x"
  then have step: "P x" if "\<And>y. (y, x) \<in> next_part \<Longrightarrow> P y" for x using that by blast
  show "P p"
  proof (induction p rule: proc_induct)
    case (Ready r)
    show ?case by (rule step) (simp add: next_part_def)
  next
    case (Await g)
    show ?case
    proof (rule step)
      fix y
      assume "(y, Await g) \<in> next_part"
      then obtain s where "y = fst (g s)" by (auto simp: next_part_def)
      with Await show "P y" by simp
    qed
  qed
qed

text \<open>The parts of the tasks still to be run, started or not, and how many are not started.\<close>

definition work_left ::
  "('x \<Rightarrow> ('s, 'e, unit) proc) \<Rightarrow> 'x list \<times> ('s, 'e, unit) proc list \<times> 's \<Rightarrow> ('s, 'e, unit) proc multiset \<times> nat" where
  "work_left task c = (case c of (todo, live, s) \<Rightarrow> (mset live + mset (map task todo), length todo))"

lemma mset_split: "i < length xs \<Longrightarrow> mset xs = {#xs ! i#} + mset (take i xs @ drop (Suc i) xs)"
  by (subst id_take_nth_drop[of i xs]) simp_all

lemma mset_replaced: "i < length xs \<Longrightarrow> mset (xs[i := p]) = {#p#} + mset (take i xs @ drop (Suc i) xs)"
  by (subst upd_conv_take_nth_drop) simp_all

lemma joinset_work_left:
  assumes "joinset limit task c c'"
  shows "(work_left task c', work_left task c) \<in> mult next_part <*lex*> less_than"
  using assms
proof cases
  case (js_spawn live x todo s)
  then show ?thesis by (simp add: work_left_def)
next
  case (js_work i live g s p s' todo)
  have "(fst (g s), Await g) \<in> next_part" by (auto simp: next_part_def)
  with js_work(5) have part: "(p, live ! i) \<in> next_part" using js_work(4) by simp
  have "(mset (map task todo) + mset (take i live @ drop (Suc i) live) + {#p#},
      mset (map task todo) + mset (take i live @ drop (Suc i) live) + {#live ! i#}) \<in> mult next_part"
    by (rule one_step_implies_mult) (use part in auto)
  with js_work show ?thesis
    by (simp add: work_left_def mset_split[OF js_work(3)] mset_replaced[OF js_work(3)] ac_simps del: mset_append)
next
  case (js_join i live r todo s)
  have "(mset (map task todo) + mset (take i live @ drop (Suc i) live) + {#},
      mset (map task todo) + mset (take i live @ drop (Suc i) live) + {#live ! i#}) \<in> mult next_part"
    by (rule one_step_implies_mult) auto
  with js_join show ?thesis
    by (simp add: work_left_def mset_split[OF js_join(3)] ac_simps del: mset_append)
qed

lemma joinset_ends: "wfp (\<lambda>c' c. joinset limit task c c')"
proof -
  have "wf {(c', c). joinset limit task c c'}"
    by (rule wf_subset[OF wf_inv_image[OF wf_lex_prod[OF wf_mult[OF next_part_wf] wf_less_than]],
        of _ "work_left task"]) (auto intro: joinset_work_left)
  then show ?thesis by (simp add: wfp_def)
qed

lemma joinset_stuck:
  assumes "0 < limit"
  shows "(\<nexists>c. joinset limit task (todo, live, s) c) \<longleftrightarrow> todo = [] \<and> live = []"
  using joinset_progress[OF assms, of todo live task s] by (auto elim: joinsetE)

text \<open>An invariant of the set, of the tasks it was given.\<close>

lemma joinset_invariant:
  assumes "(joinset limit task)\<^sup>*\<^sup>* (xs, [], s) c" and "I s"
    and "\<And>x. x \<in> set xs \<Longrightarrow> keeps I (\<lambda>_. True) (task x)"
  shows "I (snd (snd c)) \<and> (\<forall>p \<in> set (fst (snd c)). keeps I (\<lambda>_. True) p) \<and> set (fst c) \<subseteq> set xs"
  using assms(1)
proof (induction rule: rtranclp_induct)
  case base
  then show ?case using assms(2) by simp
next
  case (step c' c'')
  note IH = step.IH
  from step(2) show ?case
  proof (cases rule: joinset.cases)
    case (js_spawn live x todo s)
    with IH assms(3) show ?thesis by auto
  next
    case (js_work i live g t p s' todo)
    from js_work(3,4) IH js_work(1) have "keeps I (\<lambda>_. True) (Await g)" by (metis fst_conv nth_mem snd_conv)
    with IH js_work have "keeps I (\<lambda>_. True) p \<and> I s'"
      unfolding keeps_Await by (metis fst_conv snd_conv)
    with IH js_work show ?thesis
      using set_update_subset_insert[of live i p] by auto
  next
    case (js_join i live r todo s)
    have "set (take i live @ drop (Suc i) live) \<subseteq> set live"
      by (auto dest: in_set_takeD in_set_dropD)
    with IH js_join show ?thesis by auto
  qed
qed

section \<open>What every step of a task does, whatever the state\<close>

text \<open>\<open>steps R p\<close>: each atomic step of \<open>p\<close> relates the states before and after it by \<open>R\<close>.\<close>

primrec steps :: "('s \<Rightarrow> 's \<Rightarrow> bool) \<Rightarrow> ('s, 'e, 'a) proc \<Rightarrow> bool" where
  "steps R (Ready r) \<longleftrightarrow> True"
| "steps R (Await g) \<longleftrightarrow> (\<forall>s. case map_prod (steps R) id (g s) of (k, s') \<Rightarrow> k \<and> R s s')"

lemma steps_Await: "steps R (Await g) \<longleftrightarrow> (\<forall>s. steps R (fst (g s)) \<and> R s (snd (g s)))"
  by (simp add: map_prod_pair)

declare steps.simps(2) [simp del]

lemma steps_atomic: "(\<And>s r s'. f s = (r, s') \<Longrightarrow> R s s') \<Longrightarrow> steps R (atomic f)"
  by (auto simp: atomic_def steps_Await split: prod.splits)

lemma steps_and_then: "steps R p \<Longrightarrow> (\<And>x. steps R (f x)) \<Longrightarrow> steps R (and_then p f)"
  by (induction p rule: proc_induct) (auto simp: steps_Await map_prod_pair split: sum.splits)

lemma steps_attempt: "steps R p \<Longrightarrow> steps R (attempt p)"
  by (induction p rule: proc_induct) (auto simp: steps_Await map_prod_pair)

lemma steps_map_err: "steps R p \<Longrightarrow> steps R (map_err h p)"
  by (induction p rule: proc_induct) (auto simp: steps_Await map_prod_pair)

lemma steps_ignore: "steps R p \<Longrightarrow> steps R (ignore p)"
  unfolding ignore_def by (intro steps_and_then steps_attempt) simp_all

lemma steps_for_each: "(\<And>x. steps R (f x)) \<Longrightarrow> steps R (for_each xs f)"
  by (induction xs) (auto intro: steps_and_then)

lemma steps_keeps: "steps R p \<Longrightarrow> (\<And>s s'. I s \<Longrightarrow> R s s' \<Longrightarrow> I s') \<Longrightarrow> keeps I (\<lambda>_. True) p"
  by (induction p rule: proc_induct) (auto simp: steps_Await keeps_Await split: sum.splits)

section \<open>What timeouts do to the map of windows\<close>

text \<open>They open no window.\<close>

abbreviation opens_none :: "('r, 'p) world \<Rightarrow> ('r, 'p) world \<Rightarrow> bool" where
  "opens_none s s' \<equiv> windows s' \<subseteq>\<^sub>m windows s"

lemma opens_none_calls:
  "steps opens_none (redis_call f)" "steps opens_none (pg_call g)" "steps opens_none (read_clock c)"
  "steps opens_none (windows_remove u)"
  unfolding redis_call_def pg_call_def read_clock_def windows_remove_def
  by (rule steps_atomic; auto simp: map_le_def split: prod.splits)+

lemma opens_none_lift: "steps R (lift_result r)"
  by (simp add: lift_result_def)

lemma steps_if: "steps R p \<Longrightarrow> steps R q \<Longrightarrow> steps R (if b then p else q)"
  by simp

lemmas opens_none_rules = opens_none_calls opens_none_lift steps_and_then steps_map_err steps_ignore steps_for_each
  steps_if steps.simps(1)[THEN iffD2, OF TrueI]

lemmas timeout_unfold = delete_window_def remove_deadline_def cleanup_sources_def add_escalation_def publish_event_def
  publish_def record_match_result_def create_incident_def upsert_transaction_def
  upsert_reconciliation_details_def utc_now_def elapsed_def persist_incident_def cleanup_window_def Let_def

lemma opens_none_report: "steps opens_none (report_result E cfg u now result)"
  unfolding report_result_def timeout_unfold
  by (cases result; simp only: reconciliation_result.case; intro opens_none_rules)

lemma opens_none_outcome:
  "steps opens_none (finalize_window E cfg w)" "steps opens_none (degrade_window E cfg u w)"
  unfolding finalize_window_def degrade_window_def timeout_unfold
  by (intro opens_none_rules opens_none_report)+

lemma opens_none_rest:
  "steps opens_none (case found of None \<Rightarrow> ok () | Some w \<Rightarrow>
     if is_complete w (expected_sources_count cfg) then finalize_window E cfg w else degrade_window E cfg u w)"
  by (cases found; simp only: option.case; intro opens_none_rules opens_none_outcome)

lemma opens_none_timeout: "steps opens_none (timeout_task E cfg u)"
  unfolding timeout_task_def handle_timeout_def by (intro opens_none_rules opens_none_rest)

text \<open>Their first step closes their window, which stays closed.\<close>

abbreviation gone :: "uuid \<Rightarrow> ('r, 'p) world \<Rightarrow> bool" where
  "gone tx s \<equiv> windows s tx = None"

lemma gone_opens_none: "gone tx s \<Longrightarrow> opens_none s s' \<Longrightarrow> gone tx s'"
  by (metis domIff map_le_implies_dom_le subsetD)

lemma timeout_first_step: "timeout_task E cfg tx = Await g \<Longrightarrow> g s = (p, s') \<Longrightarrow> gone tx s'"
  by (auto simp: timeout_task_def handle_timeout_def ignore_def windows_remove_def atomic_def)

lemma timeout_not_ready: "timeout_task E cfg tx \<noteq> Ready r"
  by (simp add: timeout_task_def handle_timeout_def ignore_def windows_remove_def atomic_def)

lemma timeout_removes:
  assumes "run (handle_timeout E cfg tx) s = (res, s')"
  shows "gone tx s'"
proof -
  have run: "run (case windows s tx of None \<Rightarrow> ok () | Some w \<Rightarrow>
      if is_complete w (expected_sources_count cfg) then finalize_window E cfg w else degrade_window E cfg tx w)
      (s\<lparr>windows := (windows s)(tx := None)\<rparr>) = (res, s')"
    using assms by (simp add: handle_timeout_def run_and_then windows_remove_def run_atomic)
  have kept: "keeps (gone tx) (\<lambda>_. True) (case windows s tx of None \<Rightarrow> ok () | Some w \<Rightarrow>
      if is_complete w (expected_sources_count cfg) then finalize_window E cfg w else degrade_window E cfg tx w)"
    by (rule steps_keeps[OF opens_none_rest]) (rule gone_opens_none)
  from keeps_run[OF kept _ run] show ?thesis by simp
qed

lemma timeout_of_none: "gone tx s \<Longrightarrow> run (handle_timeout E cfg tx) s = (Inr (), s)"
  by (simp add: handle_timeout_def run_and_then windows_remove_def run_atomic run.simps(1))
    (metis (no_types, lifting) fun_upd_idem world.surjective world.update_convs(3))

lemma closed_in_set:
  assumes "(joinset limit (timeout_task E cfg))\<^sup>*\<^sup>* (ids, [], s) c" and "tx \<in> set ids"
  shows "(\<forall>p \<in> set (fst (snd c)). steps opens_none p)
    \<and> (tx \<in> set (fst c) \<or> timeout_task E cfg tx \<in> set (fst (snd c)) \<or> gone tx (snd (snd c)))"
  using assms(1)
proof (induction rule: rtranclp_induct)
  case base
  then show ?case using assms(2) by simp
next
  case (step c' c'')
  note IH = step.IH
  from step(2) show ?case
  proof (cases rule: joinset.cases)
    case (js_spawn live x todo s)
    with IH show ?thesis by (auto intro: opens_none_timeout)
  next
    case (js_work i live g t p s' todo)
    from js_work IH have "steps opens_none (Await g)" by (metis fst_conv nth_mem snd_conv)
    then have part: "steps opens_none p" "opens_none t s'" using js_work(5) unfolding steps_Await by (metis fst_conv, metis snd_conv)
    have kept: "\<forall>q \<in> set (live[i := p]). steps opens_none q"
      using IH js_work(1) part(1) set_update_subset_insert[of live i p] by auto
    show ?thesis
    proof (cases "live ! i = timeout_task E cfg tx")
      case True
      with js_work timeout_first_step[of E cfg tx g t p s'] kept show ?thesis by simp
    next
      case False
      have "timeout_task E cfg tx \<in> set (live[i := p])" if "timeout_task E cfg tx \<in> set live"
        using that False by (metis in_set_conv_nth length_list_update nth_list_update_neq)
      with IH js_work kept gone_opens_none[OF _ part(2)] show ?thesis by auto
    qed
  next
    case (js_join i live r todo s)
    have "timeout_task E cfg tx \<in> set (take i live @ drop (Suc i) live)" if "timeout_task E cfg tx \<in> set live"
      using that js_join(3,4) timeout_not_ready[of E cfg tx r] by (subst (asm) id_take_nth_drop[of i live]) auto
    moreover have "set (take i live @ drop (Suc i) live) \<subseteq> set live"
      by (auto dest: in_set_takeD in_set_dropD)
    ultimately show ?thesis using IH js_join by auto
  qed
qed

text \<open>The windows of the other transactions are not touched, as long as windows have their own keys.\<close>

interpretation others: task_invariant E cfg U X X "\<lambda>s :: ('r, 'p) world. \<forall>u. u \<notin> X \<longrightarrow> windows s u = windows s0 u"
  for E :: "('r, 'p) env" and cfg U X and s0 :: "('r, 'p) world"
  by unfold_locales auto

lemma others_kept:
  assumes "(joinset limit (timeout_task E cfg))\<^sup>*\<^sup>* (ids, [], s) c" and "windows_ok s" and "u \<notin> set ids"
  shows "windows (snd (snd c)) u = windows s u"
proof -
  have "others.safe (set ids) s (timeout_task E cfg x)" if "x \<in> set ids" for x
    unfolding timeout_task_def using that by (intro others.safe_ignore others.safe_handle_timeout)
  with joinset_invariant[OF assms(1), where I = "others.inv (set ids) s"] assms(2,3) show ?thesis by simp
qed

lemma timeout_task_run: "\<exists>s'. run (timeout_task E cfg x) s = (Inr (), s')"
  by (simp add: timeout_task_def run_ignore)

section \<open>Properties\<close>

text \<open>The concurrent pass over the expired windows ends: no execution of the set of spawned tasks
  goes on for ever, whatever the services answer, and it only stops when every task has been spawned,
  has finished and has been joined.\<close>

theorem timeout_pass_ends:
  "wfp (\<lambda>c' c. joinset 50 (timeout_task E cfg) c c')
   \<and> ((\<nexists>c. joinset 50 (timeout_task E cfg) (todo, live, s) c) \<longleftrightarrow> todo = [] \<and> live = [])"
  by (intro conjI joinset_ends joinset_stuck) simp

text \<open>C18. What the pass has done by then, in every execution and whether or not its tasks failed: the
  windows of the expired transactions are gone from the map, all other windows are as they were, and
  never more than 50 tasks were running.\<close>

theorem timeout_pass_closes:
  assumes "(joinset 50 (timeout_task E cfg))\<^sup>*\<^sup>* (ids, [], s) (todo, live, s')" and "windows_ok s"
  shows "length live \<le> 50 \<and> (\<forall>u. u \<notin> set ids \<longrightarrow> windows s' u = windows s u)
    \<and> (todo = [] \<and> live = [] \<longrightarrow> (\<forall>tx \<in> set ids. windows s' tx = None))"
  using joinset_bound[OF assms(1)] others_kept[OF assms] closed_in_set[OF assms(1)] by (fastforce simp del: not_None_eq)

theorem timeout_pass_closes_witness:
  "windows (snd (run (for_each [7] (timeout_task mem_env mem_cfg)) one_event)) 7 = None"
proof -
  let ?s' = "snd (run (for_each [7] (timeout_task mem_env mem_cfg)) one_event)"
  have "(joinset 50 (timeout_task mem_env mem_cfg))\<^sup>*\<^sup>* ([7], [], one_event) ([], [], ?s')"
    by (rule joinset_sequential) (auto simp: timeout_task_run)
  from timeout_pass_closes[OF this one_event_ok(2)] show ?thesis by simp
qed

text \<open>Running the spawned tasks one after the other, as \<open>process_expired_windows\<close> is defined here, is
  one of the executions of the set: after the expired transactions are popped, both reach its
  final state.\<close>

theorem timeout_pass_sequential:
  assumes "run (process_expired_windows E cfg) s = (Inr (), s')"
  shows "\<exists>ids t. run (expired_windows E) s = (Inr ids, t)
    \<and> (joinset 50 (timeout_task E cfg))\<^sup>*\<^sup>* (ids, [], t) ([], [], s')"
proof -
  from assms obtain ids t where pop: "run (expired_windows E) s = (Inr ids, t)"
    and rest: "run (if ids = [] then ok () else for_each ids (timeout_task E cfg)) t = (Inr (), s')"
    unfolding process_expired_windows_def run_and_then_Inr by blast
  have "run (for_each ids (timeout_task E cfg)) t = (Inr (), s')"
    using rest by (cases ids) (simp_all add: run_simps)
  then have "s' = snd (run (for_each ids (timeout_task E cfg)) t)" by simp
  moreover have "(joinset 50 (timeout_task E cfg))\<^sup>*\<^sup>* (ids, [], t) ([], [], snd (run (for_each ids (timeout_task E cfg)) t))"
    by (rule joinset_sequential) (auto simp: timeout_task_run)
  ultimately show ?thesis using pop by blast
qed

theorem timeout_pass_sequential_witness:
  "\<exists>ids t. (joinset 50 (timeout_task mem_env mem_cfg))\<^sup>*\<^sup>* (ids, [], t)
     ([], [], snd (run (process_expired_windows mem_env mem_cfg) mem_start))"
proof -
  have "fst (run (process_expired_windows mem_env mem_cfg) mem_start) = Inr ()"
    by (simp add: process_expired_windows_def expired_windows_def pop_expired_deadlines_def engine_eval services_eval scenario_eval)
  then have "run (process_expired_windows mem_env mem_cfg) mem_start
      = (Inr (), snd (run (process_expired_windows mem_env mem_cfg) mem_start))" by (simp add: prod_eq_iff)
  from timeout_pass_sequential[OF this] show ?thesis by blast
qed

text \<open>C25. A timeout that fails is not tried again: when the handler returns an error the window is already
  out of the map, so that handling the same timeout once more, as often as one likes, returns \<open>Ok\<close>
  without doing anything.\<close>

theorem failed_timeout_not_retried:
  assumes "run (handle_timeout E cfg tx) s = (Inl e, s1)"
  shows "windows s tx \<noteq> None \<and> windows s1 tx = None \<and> run (handle_timeout E cfg tx) s1 = (Inr (), s1)"
proof -
  have "windows s tx \<noteq> None"
    using assms timeout_of_none[of s tx E cfg] by auto
  moreover have "windows s1 tx = None" by (rule timeout_removes[OF assms])
  ultimately show ?thesis using timeout_of_none by blast
qed

text \<open>The in-memory services with the database down.\<close>

definition no_database :: "(mem_redis, pg_tables) env" where
  "no_database = mem_env\<lparr>pgs := \<lparr>execute = (\<lambda>st p. (Inl ''down'', p)), fetch_one = (\<lambda>st p. (Inl ''down'', p))\<rparr>\<rparr>"

theorem failed_timeout_not_retried_witness:
  "windows one_event 7 \<noteq> None
   \<and> windows (snd (run (handle_timeout no_database mem_cfg 7) one_event)) 7 = None
   \<and> transactions (pg_st (snd (run (handle_timeout no_database mem_cfg 7) one_event))) 7 = None"
proof -
  let ?r = "run (handle_timeout no_database mem_cfg 7) one_event"
  have failed: "fst ?r = Inl (Reconciler (Postgres ''down''))" "transactions (pg_st (snd ?r)) 7 = None"
    by (simp_all add: no_database_def one_event_eval engine_eval scenario_eval)
  then have "?r = (Inl (Reconciler (Postgres ''down'')), snd ?r)" by (simp add: prod_eq_iff)
  from failed_timeout_not_retried[OF this] failed(2) show ?thesis by simp
qed

end
