(* ===== verification/Incidents.thy ===== *)
theory Incidents imports Verdicts
begin

text \<open>
  The life of an incident: recorded and scheduled for escalation by the engine, kept by every task
  under every interleaving, escalated at most once.
\<close>

section \<open>Facts about the tables that every task keeps\<close>

text \<open>The engine escalates to severity 2 only.\<close>

fun engine_stmt :: "pg_stmt \<Rightarrow> bool" where
  "engine_stmt (Update_severity i sev) \<longleftrightarrow> sev = 2"
| "engine_stmt _ \<longleftrightarrow> True"

lemma tables_entry: "keeps (on_tables tables P) (\<lambda>_. True) (windows_entry tx w)"
  unfolding windows_entry_def by (rule keeps_atomic) (auto split: option.splits)

lemma tables_attempt:
  "keeps (on_tables tables P) (\<lambda>_. True) p \<Longrightarrow> keeps (on_tables tables P) (\<lambda>_. True) (attempt p)"
  by (rule keeps_weaken[OF keeps_attempt]) simp_all

lemma tables_stores:
  "keeps (on_tables tables P) (\<lambda>_. True) (try_claim_event E u ttl)"
  "keeps (on_tables tables P) (\<lambda>_. True) (save_window E w)"
  "keeps (on_tables tables P) (\<lambda>_. True) (add_deadline E tx d)"
  "keeps (on_tables tables P) (\<lambda>_. True) (try_register_source E tx src)"
  "keeps (on_tables tables P) (\<lambda>_. True) (ack E cfg entry)"
  unfolding try_claim_event_def save_window_def add_deadline_def try_register_source_def ack_def ack_message_def
  by (intro tables_rules)+

lemma tables_pop_deadlines: "keeps (on_tables tables P) (\<lambda>_. True) (pop_deadlines_loop E ms acc)"
proof (induction ms arbitrary: acc)
  case Nil
  show ?case unfolding pop_deadlines_loop.simps by (intro tables_rules)
next
  case (Cons m ms)
  show ?case
    unfolding pop_deadlines_loop.simps
    by (intro tables_rules tables_if) (auto intro: Cons split: option.split)
qed

lemma tables_pop_escalations: "keeps (on_tables tables P) (\<lambda>_. True) (pop_escalations_loop E is acc)"
proof (induction "is" arbitrary: acc)
  case Nil
  show ?case unfolding pop_escalations_loop.simps by (intro tables_rules)
next
  case (Cons i "is")
  show ?case unfolding pop_escalations_loop.simps by (intro tables_rules tables_if Cons)
qed

lemmas tables_pop_loops = tables_pop_deadlines tables_pop_escalations

context pg_server
begin

lemma tables_timeout:
  assumes "stable engine_stmt P"
  shows "keeps (on_tables tables P) (\<lambda>_. True) (finalize_window E cfg w)"
    and "keeps (on_tables tables P) (\<lambda>_. True) (degrade_window E cfg tx w)"
    and "keeps (on_tables tables P) (\<lambda>_. True) (handle_timeout E cfg tx)"
proof -
  note writes = upsert_transaction_keeps[OF assms engine_stmt.simps(2)[THEN iffD2, OF TrueI]]
    upsert_details_keeps[OF assms engine_stmt.simps(3)[THEN iffD2, OF TrueI]]
    persist_keeps[OF assms engine_stmt.simps(4)[THEN iffD2, OF TrueI]]
    report_keeps[OF assms engine_stmt.simps(4)[THEN iffD2, OF TrueI]]
  show fin: "keeps (on_tables tables P) (\<lambda>_. True) (finalize_window E cfg w)" for w
    unfolding finalize_window_def Let_def by (intro tables_rules writes tables_misc tables_cleanup)
  show deg: "keeps (on_tables tables P) (\<lambda>_. True) (degrade_window E cfg tx w)" for tx w
    unfolding degrade_window_def Let_def by (intro tables_rules writes tables_cleanup)
  show "keeps (on_tables tables P) (\<lambda>_. True) (handle_timeout E cfg tx)"
    unfolding handle_timeout_def
    by (rule tables_then[OF tables_windows(2)]) (auto intro: fin deg split: option.split simp del: keeps.simps simp: keeps_ok)
qed

lemma tables_handle_event:
  assumes "stable engine_stmt P"
  shows "keeps (on_tables tables P) (\<lambda>_. True) (handle_event E cfg msg)"
proof -
  note writes = upsert_transaction_keeps[OF assms engine_stmt.simps(2)[THEN iffD2, OF TrueI]]
    persist_keeps[OF assms engine_stmt.simps(4)[THEN iffD2, OF TrueI]] tables_timeout[OF assms]
  have settle: "keeps (on_tables tables P) (\<lambda>_. True) (settle_window E cfg tx now w)" for tx now w
    unfolding settle_window_def Let_def
    by (intro tables_rules tables_if writes tables_misc tables_emit tables_stores)
  have add: "keeps (on_tables tables P) (\<lambda>_. True) (add_to_window E cfg event now)" for event now
    unfolding add_to_window_def Let_def
    by (intro tables_rules tables_if tables_entry settle tables_misc tables_emit tables_stores)
  show ?thesis
    unfolding handle_event_def claimed_event_def handle_duplicate_def Let_def
    by (intro tables_rules tables_if add writes tables_misc tables_stores)
qed

lemma tables_escalation:
  assumes "stable engine_stmt P"
  shows "keeps (on_tables tables P) (\<lambda>_. True) (escalate_incident E i 2)"
    and "keeps (on_tables tables P) (\<lambda>_. True) (escalation_task E cfg i)"
proof -
  show esc: "keeps (on_tables tables P) (\<lambda>_. True) (escalate_incident E i 2)"
    unfolding escalate_incident_def by (intro tables_rules tables_execute[OF assms engine_stmt.simps(1)[THEN iffD2, OF refl]])
  show "keeps (on_tables tables P) (\<lambda>_. True) (escalation_task E cfg i)"
    unfolding escalation_task_def
    by (rule tables_then[OF tables_attempt[OF esc]])
      (auto intro!: tables_rules tables_misc tables_emit split: sum.split simp del: keeps.simps simp: keeps_ok)
qed

lemma tables_engine_task:
  assumes "stable engine_stmt P" and "engine_task E cfg p"
  shows "keeps (on_tables tables P) (\<lambda>_. True) p"
  using assms(2)
proof cases
  case (1 msg)
  then show ?thesis using tables_handle_event[OF assms(1)] by simp
next
  case (2 tx)
  then show ?thesis using tables_timeout(3)[OF assms(1)] by simp
next
  case 3
  show ?thesis
    unfolding 3 timer_tick_def process_expired_windows_def process_expired_escalations_def expired_windows_def
      expired_escalations_def timeout_task_def pop_expired_deadlines_def pop_expired_escalations_def
    by (intro tables_rules tables_if keeps_for_each tables_timeout(3)[OF assms(1)] tables_escalation(2)[OF assms(1)]
        tables_misc tables_pop_loops)
next
  case 4
  have entry: "keeps (on_tables tables P) (\<lambda>_. True) (process_entry E cfg entry)" for entry
    unfolding process_entry_def
    by (auto intro!: tables_then tables_attempt tables_handle_event[OF assms(1)] tables_stores
        split: option.split sum.split simp del: keeps.simps simp: keeps_ok)
  show ?thesis
    unfolding 4 stream_round_def
    by (rule tables_then[OF tables_attempt[OF tables_redis]])
      (auto intro!: keeps_for_each entry split: sum.split simp del: keeps.simps simp: keeps_ok)
qed

lemma tables_interleaving:
  assumes "stable engine_stmt P" and "interleave\<^sup>*\<^sup>* (ps, s) (ps', s')" and "\<forall>p \<in> set ps. engine_task E cfg p"
    and "P (tables (pg_st s))"
  shows "P (tables (pg_st s'))"
proof -
  have "\<forall>p \<in> set ps. keeps (on_tables tables P) (\<lambda>_. True) p"
    using tables_engine_task[OF assms(1)] assms(3) by blast
  from interleave_keeps[OF assms(2) _ this] assms(4) show ?thesis by (simp add: on_tables_def)
qed

end

section \<open>The history of an incident\<close>

text \<open>What a row may have become: the same report, escalated to severity 2 at most once.\<close>

definition continues :: "incident_row \<Rightarrow> incident_row \<Rightarrow> bool" where
  "continues a b \<longleftrightarrow> ir_transaction_id b = ir_transaction_id a \<and> ir_type b = ir_type a
     \<and> ir_description b = ir_description a \<and> ir_created_at b = ir_created_at a
     \<and> (ir_severity b = ir_severity a \<and> ir_escalated_at b = ir_escalated_at a
        \<or> sint (ir_severity a) < 2 \<and> ir_severity b = 2)"

lemma continues_refl [simp]: "continues a a"
  by (simp add: continues_def)

lemma continues_status [simp]: "continues a (b\<lparr>ir_status := st\<rparr>) = continues a b"
  by (simp add: continues_def)

lemma continues_escalated:
  "continues a b \<Longrightarrow> sint (ir_severity b) < 2 \<Longrightarrow> continues a (b\<lparr>ir_severity := 2, ir_escalated_at := t\<rparr>)"
  by (auto simp: continues_def)

definition history :: "i64 \<Rightarrow> incident_row \<Rightarrow> pg_tables \<Rightarrow> bool" where
  "history i a T \<longleftrightarrow> sequence_ok T \<and> (\<exists>b. incidents T i = Some b \<and> continues a b)"

lemma update_severity_row:
  assumes "sql_update_severity j 2 T = (n, T')" and "incidents T i = Some b"
  shows "\<exists>c. incidents T' i = Some c \<and> (c = b
     \<or> sint (ir_severity b) < 2 \<and> c = b\<lparr>ir_severity := 2, ir_escalated_at := Some (pg_now T)\<rparr>)"
  using assms by (auto simp: sql_update_severity_def split: option.splits if_splits)

lemma history_stable: "stable engine_stmt (history i a)"
proof (rule stableI)
  have ok: "stable engine_stmt sequence_ok" by (rule stable_weaken[OF sequence_stable]) simp
  show "history i a T'" if "history i a T" and "plater T T'" for T T'
    using that plater_incident(2)[OF that(2)] sequence_later[OF that(2)]
    unfolding history_def by (metis continues_status status_edit_def)
  show "history i a T'" if "history i a T" and "sql_upsert_transaction tx st cur ty mid ms T = Some T'"
    for tx st cur ty mid ms T T'
    using that(1) upsert_transaction_frame[OF that(2)] unfolding history_def sequence_ok_def by metis
  show "history i a T'" if "history i a T" and "sql_upsert_detail tx src ae aa fe fa mt rs T = Some T'"
    for tx src ae aa fe fa mt rs T T'
    using that(1) upsert_detail_frame[OF that(2)] unfolding history_def sequence_ok_def by metis
  show "history i a T'" if h: "history i a T" and ins: "sql_insert_incident tx k sev d T = Some (j, T')"
    for tx k sev d T j T'
  proof -
    from h have "sequence_ok T" unfolding history_def by blast
    note fresh = insert_fresh[OF this ins]
    from h fresh(1) have "i \<noteq> j" unfolding history_def by auto
    with fresh(3) have "incidents T' i = incidents T i" by auto
    with h fresh(2) show ?thesis unfolding history_def by simp
  qed
  show "history i a T'" if "engine_stmt (Update_severity j sev)" and h: "history i a T"
    and upd: "sql_update_severity j sev T = (n, T')" for j sev T n T'
  proof -
    from that(1) have sev: "sev = 2" by simp
    from h obtain b where b: "incidents T i = Some b" "continues a b" unfolding history_def by blast
    from stable_execute[OF ok that(1)] h upd have "sequence_ok T'" unfolding history_def by auto
    with update_severity_row[OF upd[unfolded sev] b(1)] b(2) show ?thesis
      unfolding history_def by (auto intro: continues_escalated)
  qed
qed

section \<open>Scheduling\<close>

context redis_server
begin

text \<open>A message that is published leaves the due times alone.\<close>

lemma emit_keeps_escalations:
  assumes "escalations_ok view s" and "run (emit E cfg ev) s = (Inr (), s')"
  shows "escalation_of view s' = escalation_of view s" and "pg_st s' = pg_st s"
proof -
  from assms(2) obtain json where "run (publish E (redis_pubsub_channel cfg) json) s = (Inr (), s')"
    unfolding publish_event_def run_and_then_Inr run_lift_Inr by (auto simp: run_lift_result)
  then obtain x r where r: "publish_cmd (rds E) (redis_pubsub_channel cfg) json (redis_st s) = (Inr x, r)"
    "s' = s\<lparr>redis_st := r\<rparr>"
    unfolding publish_def run_and_then_Inr run_rcall_Inr by (auto simp: run_simps)
  have "leaves escalations_key (view (redis_st s)) (view r)"
    by (rule leaves_call[OF publish_law frame_publish r(1)]) simp
  from zmembers_leaves[OF assms(1)[unfolded escalations_ok_def] this] r(2)
  show "escalation_of view s' = escalation_of view s" "pg_st s' = pg_st s"
    by (simp_all add: escalation_of_def fun_eq_iff)
qed

end

text \<open>The row that \<open>create_incident\<close> inserts, under a number that was not in use.\<close>

definition fresh_row :: "incident \<Rightarrow> i64 \<Rightarrow> pg_tables \<Rightarrow> pg_tables \<Rightarrow> bool" where
  "fresh_row inc i T T' \<longleftrightarrow> incidents T i = None
     \<and> (\<exists>t. incidents T' i = Some
          \<lparr>ir_transaction_id = in_transaction_id inc, ir_type = incident_type inc, ir_severity = severity inc,
           ir_description = description inc, ir_status = Is_open, ir_created_at = t, ir_escalated_at = None\<rparr>)"

context pg_server
begin

lemma create_incident_fresh:
  assumes "sequence_ok (tables (pg_st s))" and "run (create_incident E inc) s = (Inr i, s')"
  shows "fresh_row inc i (tables (pg_st s)) (tables (pg_st s'))"
    and "redis_st s' = redis_st s" and "reads s' = reads s"
proof -
  let ?st = "Insert_incident (in_transaction_id inc) (kind_name (incident_type inc)) (severity inc) (description inc)"
  from assms(2) obtain p where p: "fetch_one (pgs E) ?st (pg_st s) = (Inr i, p)" "s' = s\<lparr>pg_st := p\<rparr>"
    unfolding create_incident_def run_pcall_Inr by blast
  from fetch_one_law p(1) obtain V where V: "plater (tables (pg_st s)) V" "sql_fetch_one ?st V i (tables p)"
    by (rule complies_ok)
  note fresh = insert_fresh[OF sequence_later[OF V(1) assms(1)] V(2)[unfolded sql_fetch_one.simps]]
  from fresh(1) have "incidents (tables (pg_st s)) i = None"
    using plater_incident(2)[OF V(1), of i] by (cases "incidents (tables (pg_st s)) i") auto
  with fresh(3) p(2) show "fresh_row inc i (tables (pg_st s)) (tables (pg_st s'))" by (auto simp: fresh_row_def)
  from p(2) show "redis_st s' = redis_st s" "reads s' = reads s" by simp_all
qed

end

lemma escalation_frames:
  "redis_st s' = redis_st s \<Longrightarrow> escalation_of view s' = escalation_of view s"
  "redis_st s' = redis_st s \<Longrightarrow> escalations_ok view s' = escalations_ok view s"
  by (simp_all add: escalation_of_def escalations_ok_def zmembers_def zset_ok_def fun_eq_iff)

context engine_services
begin

lemma persist_schedules:
  assumes "escalations_ok view s" and "sequence_ok (tables (pg_st s))"
    and "run (persist_incident E cfg inc) s = (Inr (), s')"
  obtains i where "fresh_row inc i (tables (pg_st s)) (tables (pg_st s'))"
    and "escalation_of view s' = (if severity inc = 1
      then (escalation_of view s)(i \<mapsto> dbl (sint (utc_millis E (reads s) + reconciler_escalation_ms cfg)))
      else escalation_of view s)"
proof -
  let ?now = "utc_millis E (reads s)"
  from assms(3) obtain i t v ev where t: "run (create_incident E inc) s = (Inr i, t)"
    and v: "run (if severity inc = 1 then lift (add_escalation E i (utc_millis E (reads t) + reconciler_escalation_ms cfg))
        else ok ()) (t\<lparr>reads := Suc (reads t)\<rparr>) = (Inr (), v)"
    and emitted: "run (emit E cfg ev) v = (Inr (), s')"
    unfolding persist_incident_def run_and_then_Inr run_lift_Inr by (auto simp: run_utc_now intro: that)
  obtain u where u: "u = t\<lparr>reads := Suc (reads t)\<rparr>" by blast
  note new = create_incident_fresh[OF assms(2) t]
  have ok: "escalations_ok view u" "escalation_of view u = escalation_of view s"
    using assms(1) escalation_frames[of u s] u new(2) by auto
  have "escalations_ok view v \<and> pg_st v = pg_st t \<and> escalation_of view v = (if severity inc = 1
      then (escalation_of view s)(i \<mapsto> dbl (sint (?now + reconciler_escalation_ms cfg))) else escalation_of view s)"
  proof (cases "severity inc = 1")
    case True
    with v new(3) u have add: "run (add_escalation E i (?now + reconciler_escalation_ms cfg)) u = (Inr (), v)"
      by (simp add: run_lift_Inr)
    moreover from add have "pg_st v = pg_st u"
      unfolding add_escalation_def run_rcall_Inr by auto
    ultimately show ?thesis using esc.add_law[OF ok(1)] ok(2) True u by simp
  next
    case False
    with v u have "v = u" by simp
    then show ?thesis using ok u False by simp
  qed
  with emitted emit_keeps_escalations new(1) show thesis by (metis that)
qed

end

section \<open>Properties\<close>

text \<open>C13. An incident is reported once and for all: whatever the engine's tasks do, in whatever order,
  the row of a recorded incident keeps its transaction, kind, description and creation time; its
  severity only changes from below 2 to 2, and once it is 2 neither it nor the time of its
  escalation changes again.\<close>

theorem incident_history:
  assumes "pg_server E tables" and "sequence_ok (tables (pg_st s))"
    and "incidents (tables (pg_st s)) i = Some row"
    and "interleave\<^sup>*\<^sup>* (ps, s) (ps', s')" and "\<forall>p \<in> set ps. engine_task E cfg p"
  shows "\<exists>row'. incidents (tables (pg_st s')) i = Some row'
    \<and> ir_transaction_id row' = ir_transaction_id row \<and> ir_type row' = ir_type row
    \<and> ir_description row' = ir_description row \<and> ir_created_at row' = ir_created_at row
    \<and> (ir_severity row' = ir_severity row \<and> ir_escalated_at row' = ir_escalated_at row
       \<or> sint (ir_severity row) < 2 \<and> ir_severity row' = 2)"
proof -
  have "history i row (tables (pg_st s))" using assms(2,3) by (simp add: history_def)
  with pg_server.tables_interleaving[OF assms(1) history_stable assms(4,5)]
  show ?thesis by (auto simp: history_def continues_def)
qed

text \<open>The missing-source incident of a degraded transaction, and a timer tick.\<close>

definition missing_row :: incident_row where
  "missing_row = \<lparr>ir_transaction_id = 7, ir_type = MissingSource, ir_severity = 1, ir_description = ''x'',
     ir_status = Is_open, ir_created_at = 0, ir_escalated_at = None\<rparr>"

definition one_incident :: "(mem_redis, pg_tables) world" where
  "one_incident = mem_start\<lparr>pg_st := (pg_st mem_start)\<lparr>incidents := [1 \<mapsto> missing_row], next_incident := 2\<rparr>\<rparr>"

theorem incident_history_witness:
  "\<exists>row. incidents (pg_st (snd (run (timer_tick mem_env mem_cfg) one_incident))) 1 = Some row
     \<and> ir_type row = MissingSource \<and> (ir_severity row = 1 \<or> ir_severity row = 2)"
proof -
  let ?p = "timer_tick mem_env mem_cfg"
  have ok: "sequence_ok (pg_st one_incident)"
    by (auto simp: sequence_ok_def one_incident_def split: if_splits)
  have row: "incidents (pg_st one_incident) 1 = Some missing_row" by (simp add: one_incident_def)
  have steps: "interleave\<^sup>*\<^sup>* ([?p], one_incident) ([Ready (fst (run ?p one_incident))], snd (run ?p one_incident))"
    using interleave_run[of 0 "[?p]" one_incident] by simp
  have "\<forall>p \<in> set [?p]. engine_task mem_env mem_cfg p" by (simp add: engine_task.intros)
  from incident_history[OF mem.pg_server_axioms ok row steps this] show ?thesis by (auto simp: missing_row_def)
qed

text \<open>C14. What reporting an incident does: when \<open>persist_incident\<close> returns \<open>Ok\<close>, the incident is a row
  under a number that was not in use, open and not escalated, and if its severity is 1 its escalation
  is due exactly \<open>reconciler_escalation_ms\<close> after the time read; no other escalation changes.\<close>

theorem incident_scheduled:
  assumes "redis_server E view dbl" and "pg_server E tables"
    and "escalations_ok view s" and "sequence_ok (tables (pg_st s))"
    and "run (persist_incident E cfg inc) s = (Inr (), s')"
  shows "\<exists>i. fresh_row inc i (tables (pg_st s)) (tables (pg_st s'))
    \<and> escalation_of view s' = (if severity inc = 1
        then (escalation_of view s)(i \<mapsto> dbl (sint (utc_millis E (reads s) + reconciler_escalation_ms cfg)))
        else escalation_of view s)"
  using engine_services.persist_schedules[OF engine_services.intro[OF assms(1,2)] assms(3-5)] by blast

definition seven_known :: "(mem_redis, pg_tables) world" where
  "seven_known = mem_start\<lparr>pg_st := (pg_st mem_start)\<lparr>transactions := [7 \<mapsto>
     \<lparr>tr_status = St_matched, tr_merchant_id = None, tr_tx_type = ''card'', tr_currency = ''UZS'',
      tr_created_at = 0, tr_updated_at = 0, tr_processing_time_ms = 0\<rparr>]\<rparr>\<rparr>"

theorem incident_scheduled_witness:
  "\<exists>i. escalation_of mem_view (snd (run (persist_incident mem_env mem_cfg (missing_incident mem_cfg 7 [Bank])) seven_known))
     = [i \<mapsto> sint (utc_millis mem_env 10 + 10000)]"
proof -
  let ?i = "missing_incident mem_cfg 7 [Bank]"
  let ?r = "run (persist_incident mem_env mem_cfg ?i) seven_known"
  have ok: "escalations_ok mem_view seven_known" "sequence_ok (pg_st seven_known)"
    "escalation_of mem_view seven_known = Map.empty" "severity ?i = 1" "reads seven_known = 10"
    by (auto simp: escalations_ok_def zset_ok_def seven_known_def mem_start_def sequence_ok_def escalation_of_def
        zmembers_def cell_view_def alive_def zset_of_def missing_incident_def services_eval)
  have "fst ?r = Inr ()"
    by (simp add: persist_incident_def create_incident_def seven_known_def engine_eval services_eval scenario_eval)
  then have "?r = (Inr (), snd ?r)" by (simp add: prod_eq_iff)
  from incident_scheduled[OF mem.redis_server_axioms mem.pg_server_axioms ok(1,2) this] ok(3-5)
  show ?thesis by (auto simp: scenario_eval)
qed

end
