(* ===== verification/Late_Events.thy ===== *)
theory Late_Events imports Incidents
begin

text \<open>
  An event that arrives after its transaction was settled: closing the window forgot which sources had
  reported, so the event opens the window again and its timeout overwrites the verdict.
\<close>

section \<open>A reopened window\<close>

lemma single_event_len: "events_len [src \<mapsto> e] = 1"
  by (simp add: events_len_card)

lemma single_event_missing:
  "events w = [src \<mapsto> e] \<Longrightarrow> missing_sources w = filter (\<lambda>x. x \<noteq> src) source_all"
  by (simp add: missing_sources_def)

context engine_services
begin

lemma reopened_window_degrades:
  assumes tx: "pe_transaction_id (sm_event msg) = tx" and s: "queues_ok E view s" "windows_ok s"
    and sequence: "sequence_ok (tables (pg_st s))" and closed: "windows s tx = None"
    and "fresh_event E view (sm_event msg) s"
    and "\<not> source_registered E view tx (pe_source (sm_event msg)) s" and more: "1 < expected_sources_count cfg"
    and "run (handle_event E cfg msg) s = (Inr (), s1)" and timeout: "run (handle_timeout E cfg tx) s1 = (Inr (), s2)"
  shows "pg_st s1 = pg_st s"
    and "degraded_stored cfg tx (the (windows s1 tx)) (tables (pg_st s2))"
    and "events (the (windows s1 tx)) = [pe_source (sm_event msg) \<mapsto> sm_event msg]"
proof -
  let ?e = "sm_event msg"
  have none: "events_of s tx = Map.empty" by (simp add: events_of_def closed)
  have "events_len ((events_of s tx)(pe_source ?e \<mapsto> ?e)) < expected_sources_count cfg"
    using more by (simp add: none single_event_len)
  then obtain w t now where w: "w = new_partial tx now (reconciler_timeout_ms cfg)"
    and s1: "windows s1 tx = Some (w\<lparr>events := (events w)(pe_source ?e \<mapsto> ?e), processing_time_micros := t\<rparr>)"
      "pg_st s1 = pg_st s"
    by (rule joining_handle_event[OF tx s assms(6,7) _ assms(9)]) (simp add: closed)
  let ?w = "w\<lparr>events := (events w)(pe_source ?e \<mapsto> ?e), processing_time_micros := t\<rparr>"
  have single: "events ?w = [pe_source ?e \<mapsto> ?e]" by (simp add: w new_partial_def)
  then have "\<not> is_complete ?w (expected_sources_count cfg)"
    using more by (simp add: is_complete_def single_event_len)
  moreover have "on_tables tables sequence_ok s1" using sequence s1(2) by (simp add: on_tables_def)
  ultimately have "degraded_stored cfg tx ?w (tables (pg_st s2))"
    using handle_timeout_stores[OF _ s1(1) timeout] by (auto simp: on_tables_def)
  with s1 single show "pg_st s1 = pg_st s"
    "degraded_stored cfg tx (the (windows s1 tx)) (tables (pg_st s2))"
    "events (the (windows s1 tx)) = [pe_source ?e \<mapsto> ?e]" by simp_all
qed

end

section \<open>Properties\<close>

text \<open>C12. A late event overturns the verdict: when a new event comes for a transaction whose window is
  closed and whose sources are no longer registered, and the handler and then the timeout of the
  window it opens return \<open>Ok\<close>, the transaction is stored as degraded with an incident that names the
  other sources as missing, whatever its stored verdict was.\<close>

theorem late_event_degrades:
  assumes "redis_server E view dbl" and "pg_server E tables" and "pe_transaction_id (sm_event msg) = tx"
    and "queues_ok E view s" and "windows_ok s" and "sequence_ok (tables (pg_st s))" and "windows s tx = None"
    and "fresh_event E view (sm_event msg) s"
    and "\<not> source_registered E view tx (pe_source (sm_event msg)) s" and "1 < expected_sources_count cfg"
    and "run (handle_event E cfg msg) s = (Inr (), s1)" and "run (handle_timeout E cfg tx) s1 = (Inr (), s2)"
  shows "has_status tx St_degraded (tables (pg_st s2))
    \<and> recorded (missing_incident cfg tx (filter (\<lambda>x. x \<noteq> pe_source (sm_event msg)) source_all)) (tables (pg_st s2))"
  using engine_services.reopened_window_degrades[OF engine_services.intro[OF assms(1,2)] assms(3-12)]
  by (simp add: degraded_stored_def single_event_missing)

text \<open>A transaction stored as matched, and a late event of the merchant.\<close>

lemma late_event_outcome:
  "run (handle_event mem_env mem_cfg (mem_message 1 Merchant 100 0)) seven_known
     = (Inr (), one_event\<lparr>pg_st := pg_st seven_known\<rparr>)"
  by (simp add: seven_known_def one_event_eval ordered_eval log_eval scenario_eval cong: ordered_congs)

lemma late_timeout_outcome:
  "fst (run (handle_timeout mem_env mem_cfg 7) (one_event\<lparr>pg_st := pg_st seven_known\<rparr>)) = Inr ()"
  by (simp add: seven_known_def one_event_eval engine_eval services_eval scenario_eval)

theorem late_event_degrades_witness:
  "has_status 7 St_matched (pg_st seven_known)
   \<and> has_status 7 St_degraded (pg_st (snd (run (handle_timeout mem_env mem_cfg 7) (one_event\<lparr>pg_st := pg_st seven_known\<rparr>))))"
proof -
  let ?m = "mem_message 1 Merchant 100 0"
  let ?s1 = "one_event\<lparr>pg_st := pg_st seven_known\<rparr>"
  have state: "queues_ok mem_env mem_view seven_known" "windows_ok seven_known" "sequence_ok (pg_st seven_known)"
    "windows seven_known 7 = None" "fresh_event mem_env mem_view (sm_event ?m) seven_known"
    "\<not> source_registered mem_env mem_view 7 (pe_source (sm_event ?m)) seven_known"
    "1 < expected_sources_count mem_cfg"
    by (simp_all add: queues_ok_def deadlines_ok_def escalations_ok_def zset_ok_def windows_ok_def sequence_ok_def
        fresh_event_def source_registered_def seven_known_def mem_lookup_def scenario_eval)
  have "run (handle_timeout mem_env mem_cfg 7) ?s1 = (Inr (), snd (run (handle_timeout mem_env mem_cfg 7) ?s1))"
    using late_timeout_outcome by (simp add: prod_eq_iff)
  from late_event_degrades[OF mem.redis_server_axioms mem.pg_server_axioms mem_message_simps(1) state
      late_event_outcome this]
  show ?thesis by (simp add: has_status_def seven_known_def)
qed

end
