(* ===== verification/Saved_Windows.thy ===== *)
theory Saved_Windows imports Verdicts
begin

text \<open>
  The saved copy of an open window: after an event has joined a window, what Redis keeps under the
  window's key is the window as it is in the map, for thirty seconds, so that a restarted reconciler
  goes on from it.
\<close>

definition saved_copy ::
  "('r, 'p) env \<Rightarrow> ('r \<Rightarrow> rview) \<Rightarrow> uuid \<Rightarrow> int \<Rightarrow> ('r, 'p) world \<Rightarrow> bool" where
  "saved_copy E view tx c s \<longleftrightarrow> (\<exists>w json T. windows s tx = Some w \<and> window_to_json E w = Inr json \<and> c + 30000 \<le> T
     \<and> (cells (view (redis_st s)) (window_key E tx) = Some (RStr json, Some T)
        \<or> cells (view (redis_st s)) (window_key E tx) = None \<and> T \<le> clock (view (redis_st s))))"

lemma unexpired_until: "unexpired d (Some (v, Some T)) = (if d < T then Some (v, Some T) else None)"
  by (simp add: unexpired_def)

text \<open>What does not write the key leaves the copy there.\<close>

sublocale redis_server \<subseteq> saved: task_invariant E cfg "{}" "{}" "{}" "saved_copy E view tx c" for cfg tx c
proof
  show "saved_copy E view tx c (s\<lparr>redis_st := r\<rparr>)"
    if "saved_copy E view tx c s" and step: "redis_steps E {} {} {} (redis_st s) r" for s r
  proof -
    from that(1) obtain w json T where w: "windows s tx = Some w" "window_to_json E w = Inr json" "c + 30000 \<le> T"
      and copy: "cells (view (redis_st s)) (window_key E tx) = Some (RStr json, Some T)
        \<or> cells (view (redis_st s)) (window_key E tx) = None \<and> T \<le> clock (view (redis_st s))"
      unfolding saved_copy_def by blast
    from step_leaves[OF step closed_keys_no_footprint(1)] obtain d
      where "clock (view (redis_st s)) \<le> clock (view r)" "d \<le> clock (view r)"
        "cells (view r) (window_key E tx) = unexpired d (cells (view (redis_st s)) (window_key E tx))"
      unfolding leaves_def by blast
    with copy have "cells (view r) (window_key E tx) = Some (RStr json, Some T)
        \<or> cells (view r) (window_key E tx) = None \<and> T \<le> clock (view r)"
      by (auto simp: unexpired_until split: if_splits)
    with w show ?thesis unfolding saved_copy_def by auto
  qed
qed (simp_all add: saved_copy_def)

context redis_server
begin

lemma save_window_copy:
  assumes "c \<le> clock (view (redis_st s))" and "windows s (pt_transaction_id w) = Some w"
    and "run (save_window E w) s = (Inr (), s')"
  shows "saved_copy E view (pt_transaction_id w) c s'"
proof -
  let ?k = "window_key E (pt_transaction_id w)"
  from assms(3) obtain json r where json: "window_to_json E w = Inr json"
    and r: "set_px (rds E) ?k json 30000 (redis_st s) = (Inr (), r)" "s' = s\<lparr>redis_st := r\<rparr>"
    unfolding save_window_def run_and_then_Inr run_rcall_Inr by (auto simp: run_lift_Inr run_lift_result)
  from set_px_law r(1) obtain V where V: "rlater (view (redis_st s)) V" "sp_set_px ?k json 30000 V () (view r)"
    by (rule complies_ok)
  then have "cells (view r) ?k = Some (RStr json, Some (clock V + 30000))" by (simp add: sp_set_px_def)
  moreover have "c \<le> clock V" using assms(1) V(1) by (auto simp: rlater_def)
  ultimately show ?thesis using assms(2) json r(2) unfolding saved_copy_def by auto
qed

lemma settle_copy:
  assumes "\<not> is_complete w (expected_sources_count cfg)" and "window_ok tx w"
  shows "hoare (tick.inv c) (settle_window E cfg tx now w)
    (\<lambda>_ s. saved_copy E view tx c s \<and> windows_ok s) (\<lambda>_ _. True)"
  unfolding settle_window_def Let_def if_not_P[OF assms(1)]
proof (intro tick.safe_first[OF tick.safe_stores(10)] tick.safe_first[OF tick.safe_database(6)])
  fix u :: unit and t
  let ?w = "w\<lparr>processing_time_micros := processing_time_micros w + t\<rparr>"
  have w: "window_ok tx ?w" by (rule window_ok_simps(4)[OF assms(2)])
  then have tx: "pt_transaction_id ?w = tx" by (rule window_ok_simps(1))
  show "hoare (tick.inv c) (and_then (windows_insert tx ?w)
      (\<lambda>_. and_then (lift (save_window E ?w)) (\<lambda>_. ok (processing_time_micros ?w))))
      (\<lambda>_ s. saved_copy E view tx c s \<and> windows_ok s) (\<lambda>_ _. True)"
  proof (rule hoareI)
    fix s s' :: "('r, 'p) world" and x
    let ?s = "s\<lparr>windows := (windows s)(tx \<mapsto> ?w)\<rparr>"
    assume s: "tick.inv c s" and "run (and_then (windows_insert tx ?w)
      (\<lambda>_. and_then (lift (save_window E ?w)) (\<lambda>_. ok (processing_time_micros ?w)))) s = (Inr x, s')"
    then have save: "run (save_window E ?w) ?s = (Inr (), s')"
      unfolding run_and_then_Inr run_lift_Inr by (auto simp: windows_insert_def run_atomic run.simps(1))
    have before: "tick.inv c ?s" using s w by (auto intro: windows_ok_simps)
    from tick.run_keeps[OF tick.safe_stores(2)[OF UNIV_I w] conjunct1[OF before] conjunct2[OF before] save]
    have "windows_ok s'" by blast
    with save_window_copy[of c ?s ?w s'] save before tx show "saved_copy E view tx c s' \<and> windows_ok s'" by simp
  qed simp
qed

lemma add_copy:
  assumes tx: "pe_transaction_id event = tx" and s: "tick.inv c s"
    and more: "events_len ((events_of s tx)(pe_source event \<mapsto> event)) < expected_sources_count cfg"
    and run: "run (add_to_window E cfg event now) s = (Inr (), s')"
  shows "saved_copy E view tx c s'"
proof -
  let ?fresh = "new_partial tx now (reconciler_timeout_ms cfg)"
  let ?entry = "windows_entry tx ?fresh :: ('r, 'p, anyhow, partial_transaction) io"
  obtain found s1 where entry: "run ?entry s = (Inr found, s1)"
    by (cases "windows s tx") (simp_all add: windows_entry_def run_atomic)
  then have found: "found = (case windows s tx of Some w \<Rightarrow> w | None \<Rightarrow> ?fresh)"
    by (simp add: windows_entry_def run_atomic split: option.splits)
  then have "events found = events_of s tx" by (simp add: events_of_def new_partial_def split: option.split)
  let ?w = "found\<lparr>events := (events found)(pe_source event \<mapsto> event)\<rparr>"
  have open_still: "\<not> is_complete ?w (expected_sources_count cfg)"
    using more \<open>events found = events_of s tx\<close> by (simp add: is_complete_def)
  have "window_ok tx found" using s found by (auto intro: windows_ok_simps window_ok_simps split: option.splits)
  then have w: "window_ok tx ?w" using tx by (intro window_ok_simps(3))
  have s1: "tick.inv c s1"
    using keeps_run[OF tick.safe_entry[OF UNIV_I window_ok_simps(2)] s entry] by blast
  let ?recording = "\<lambda>logic_micros. and_then (elapsed E) (\<lambda>total_micros.
    ignore (record_event_processed E (source_name (pe_source event)) total_micros logic_micros))"
  have recording: "hoare (\<lambda>s. saved_copy E view tx c s \<and> windows_ok s) (?recording l)
      (\<lambda>_ s. saved_copy E view tx c s \<and> windows_ok s) (\<lambda>_ _. True)" for l
    by (intro saved.safe_hoare saved.safe_and_then saved.safe_database saved.safe_ignore saved.safe_record)
  note settled = hoare_and_then[OF settle_copy[OF open_still w] recording]
  have opened: "tick.safe c (if events_len (events found) = 0 then and_then (lift (add_deadline E tx (deadline_ms ?w)))
      (\<lambda>_. emit E cfg (TransactionReceived tx (pe_source event) now)) else ok ())"
    by (intro tick.safe_if tick.safe_rules tick.safe_stores(4)[OF UNIV_I] tick.safe_stores(10))
  have "hoare (tick.inv c) (and_then
      (if events_len (events found) = 0 then and_then (lift (add_deadline E tx (deadline_ms ?w)))
        (\<lambda>_. emit E cfg (TransactionReceived tx (pe_source event) now)) else ok ())
      (\<lambda>_. and_then (windows_insert tx ?w)
      (\<lambda>_. and_then (lift (save_window E ?w))
      (\<lambda>_. and_then (settle_window E cfg tx now ?w) ?recording)))) (\<lambda>_ s. saved_copy E view tx c s \<and> windows_ok s) (\<lambda>_ _. True)"
    by (rule tick.safe_first[OF opened] tick.safe_first[OF tick.safe_insert[OF UNIV_I w]]
        tick.safe_first[OF tick.safe_map_err[OF tick.safe_stores(2)[OF UNIV_I w]]] settled)+
  moreover from run have "run (and_then
      (if events_len (events found) = 0 then and_then (lift (add_deadline E tx (deadline_ms ?w)))
        (\<lambda>_. emit E cfg (TransactionReceived tx (pe_source event) now)) else ok ())
      (\<lambda>_. and_then (windows_insert tx ?w)
      (\<lambda>_. and_then (lift (save_window E ?w))
      (\<lambda>_. and_then (settle_window E cfg tx now ?w) ?recording)))) s1 = (Inr (), s')"
    by (simp only: add_to_window_def Let_def tx run_and_then[of ?entry] entry prod.case sum.case)
  ultimately show ?thesis using s1 by (blast dest: hoare_Inr)
qed

lemma load_window_copy:
  assumes copy: "saved_copy E view tx c s" and run: "run (load_window E tx) s = (Inr x, s')"
    and round_trip: "\<And>w json. windows s tx = Some w \<Longrightarrow> window_to_json E w = Inr json \<Longrightarrow> window_from_json E json = Inr w"
  shows "x = windows s tx \<or> c + 30000 \<le> clock (view (redis_st s'))"
proof -
  let ?k = "window_key E tx"
  from copy obtain w json T where w: "windows s tx = Some w" "window_to_json E w = Inr json" "c + 30000 \<le> T"
    and cell: "cells (view (redis_st s)) ?k = Some (RStr json, Some T)
      \<or> cells (view (redis_st s)) ?k = None \<and> T \<le> clock (view (redis_st s))"
    unfolding saved_copy_def by blast
  from run obtain y r where r: "get_str (rds E) ?k (redis_st s) = (Inr y, r)"
    and rest: "run (case y of Some t \<Rightarrow> and_then (map_err Serde (lift_result (window_from_json E t))) (\<lambda>p. ok (Some p))
      | None \<Rightarrow> ok None) (s\<lparr>redis_st := r\<rparr>) = (Inr x, s')"
    unfolding load_window_def run_and_then_Inr run_rcall_Inr by blast
  from get_law r obtain V where V: "rlater (view (redis_st s)) V" "sp_get ?k V y (view r)" by (rule complies_ok)
  have s': "redis_st s' = r"
    using rest by (auto simp: run_and_then_Inr run_lift_Inr run_lift_result split: option.splits)
  show ?thesis
  proof (cases "clock (view r) < T")
    case True
    with V have "y = Some json"
      using cell by (auto simp: sp_get_def rlater_def unexpired_until split: option.splits)
    with rest have "x = Some w"
      by (auto simp: run_and_then_Inr run_lift_Inr run_lift_result round_trip[OF w(1,2)])
    with w(1) show ?thesis by simp
  next
    case False
    with w(3) s' show ?thesis by simp
  qed
qed

lemma joined_window_saved:
  assumes "pe_transaction_id (sm_event msg) = tx" and "windows_ok s" and "queues_ok E view s"
    and "fresh_event E view (sm_event msg) s"
    and "\<not> source_registered E view tx (pe_source (sm_event msg)) s"
    and "events_len ((events_of s tx)(pe_source (sm_event msg) \<mapsto> sm_event msg)) < expected_sources_count cfg"
    and "run (handle_event E cfg msg) s = (Inr (), s')"
  shows "saved_copy E view tx (clock (view (redis_st s))) s'"
  using assms(4,7) assms(5)[folded assms(1)]
proof (rule handle_event_new_source)
  let ?c = "clock (view (redis_st s))"
  fix now s2
  assume add: "run (add_to_window E cfg (sm_event msg) now) s2 = (Inr (), s')"
    and frame: "windows s2 = windows s" and clock: "?c \<le> clock (view (redis_st s2))"
  have "tick.inv ?c s2" using clock assms(2) by (simp add: windows_ok_def frame)
  from add_copy[OF assms(1) this _ add] assms(6) show ?thesis by (simp add: events_of_def frame)
qed

end

section \<open>Properties\<close>

text \<open>C26. Progress survives a restart: after an event that does not complete its window was handled, loading
  the window from Redis gives exactly the window in the map, provided JSON decoding inverts
  encoding, unless thirty seconds have passed since the handler was called.\<close>

theorem joined_window_can_be_loaded:
  assumes "redis_server E view dbl" and "pe_transaction_id (sm_event msg) = tx"
    and "windows_ok s" and "queues_ok E view s" and "fresh_event E view (sm_event msg) s"
    and "\<not> source_registered E view tx (pe_source (sm_event msg)) s"
    and "events_len ((events_of s tx)(pe_source (sm_event msg) \<mapsto> sm_event msg)) < expected_sources_count cfg"
    and "run (handle_event E cfg msg) s = (Inr (), s1)" and "run (load_window E tx) s1 = (Inr x, s2)"
    and "\<And>w json. windows s1 tx = Some w \<Longrightarrow> window_to_json E w = Inr json \<Longrightarrow> window_from_json E json = Inr w"
  shows "x = windows s1 tx \<or> clock (view (redis_st s)) + 30000 \<le> clock (view (redis_st s2))"
  by (rule redis_server.load_window_copy[OF assms(1) redis_server.joined_window_saved[OF assms(1-8)] assms(9,10)])

text \<open>The in-memory services with a decoder that knows the window of the first event.\<close>

definition json_env :: "(mem_redis, pg_tables) env" where
  "json_env = mem_env\<lparr>window_from_json := \<lambda>json. case windows one_event 7 of None \<Rightarrow> Inl json | Some w \<Rightarrow> Inr w\<rparr>"

lemma json_env_simps [simp]:
  "rds json_env = mem_rds" "pgs json_env = mem_pgs" "uuid_str json_env = uuid_str mem_env"
  "uuid_parse json_env = uuid_parse mem_env" "utc_millis json_env = utc_millis mem_env"
  "utc_rfc3339 json_env = utc_rfc3339 mem_env" "elapsed_micros json_env = elapsed_micros mem_env"
  "window_to_json json_env = window_to_json mem_env" "event_to_json json_env = event_to_json mem_env"
  "map_order json_env = map_order mem_env"
  by (simp_all add: json_env_def)

lemma json_env_server: "redis_server json_env mem_view (\<lambda>i. i)"
  by (rule mem_server) (simp_all add: mem_uuid_round_trip)

lemma json_env_first_event:
  "run (handle_event json_env mem_cfg (mem_message 1 Merchant 100 0)) mem_start = (Inr (), one_event)"
  by (simp add: prod_eq_iff one_event_def engine_eval services_eval scenario_eval)

theorem joined_window_can_be_loaded_witness:
  "fst (run (load_window json_env 7) one_event) = Inr (windows one_event 7)"
proof -
  let ?m = "mem_message 1 Merchant 100 0"
  let ?r = "run (load_window json_env 7) one_event"
  have state: "windows_ok mem_start" "queues_ok json_env mem_view mem_start"
    "fresh_event json_env mem_view (sm_event ?m) mem_start"
    "\<not> source_registered json_env mem_view 7 (pe_source (sm_event ?m)) mem_start"
    "events_len ((events_of mem_start 7)(pe_source (sm_event ?m) \<mapsto> sm_event ?m)) < expected_sources_count mem_cfg"
    by (simp_all add: queues_ok_def deadlines_ok_def escalations_ok_def zset_ok_def windows_ok_def fresh_event_def
        source_registered_def mem_lookup_def events_of_def events_len_def source_all_def scenario_eval)
  have decoder: "window_from_json json_env json = Inr w" if "windows one_event 7 = Some w" for w json
    by (simp add: json_env_def that)
  obtain x where loaded: "?r = (Inr x, snd ?r)" and early: "m_clock (redis_st (snd ?r)) = 0"
    by (cases "fst ?r") (simp_all add: load_window_def one_event_eval engine_eval services_eval decoder)
  from joined_window_can_be_loaded[OF json_env_server mem_message_simps(1) state json_env_first_event loaded decoder] early
  have "x = windows one_event 7" by (simp add: mem_start_def)
  with loaded show ?thesis by (metis fst_conv)
qed

end
