(* ===== verification/Due_Sets.thy ===== *)
theory Due_Sets imports Window_Lifecycle
begin

text \<open>
  The running system as a whole: whatever the tasks do and in whatever order, the windows stay well
  formed and the two sorted sets of due times implement their contract. Popping is safe for several
  timers at once: an expired window is handed to one of them only, because a member counts as popped
  only when its removal was the one that took it out.
\<close>

section \<open>Several pops at once\<close>

text \<open>How far a pop has come: \<open>acc\<close> is what it has taken out so far.\<close>

inductive popping ::
  "('r, 'p) env \<Rightarrow> uuid list \<Rightarrow> ('r, 'p, reconciler_error, uuid list) io \<Rightarrow> bool" for E where
  pop_start: "popping E [] (pop_expired_deadlines E now)"
| pop_loop: "popping E acc (pop_deadlines_loop E ms acc)"
| pop_failed: "popping E acc (err e)"

lemma rcall_step:
  "and_then (rcall f) h = Await (\<lambda>s. case f (redis_st s) of
     (Inl e, r) \<Rightarrow> (err (Redis e), s\<lparr>redis_st := r\<rparr>) | (Inr x, r) \<Rightarrow> (h x, s\<lparr>redis_st := r\<rparr>))"
  by (auto simp: redis_call_def atomic_def fun_eq_iff split: prod.splits sum.splits)

lemma popping_result: "popping E acc p \<Longrightarrow> p = Ready (Inr ids) \<Longrightarrow> ids = acc"
proof (induction rule: popping.induct)
  case (pop_loop acc ms)
  then show ?case by (cases ms) (simp_all add: rcall_step)
qed (simp_all add: pop_expired_deadlines_def rcall_step)

text \<open>What one step of a pop does to the set.\<close>

definition pops :: "('r, 'p) env \<Rightarrow> ('r \<Rightarrow> rview) \<Rightarrow> uuid list \<Rightarrow> ('r, 'p) world \<Rightarrow>
    ('r, 'p, reconciler_error, uuid list) io \<Rightarrow> ('r, 'p) world \<Rightarrow> bool" where
  "pops E view acc s p s' \<longleftrightarrow> deadlines_ok E view s'
     \<and> (\<forall>v. deadline_of E view s v = None \<longrightarrow> deadline_of E view s' v = None)
     \<and> (popping E acc p \<or> (\<exists>u. popping E (acc @ [u]) p \<and> deadline_of E view s u \<noteq> None \<and> deadline_of E view s' u = None))"

context redis_server
begin

lemma zrem_any:
  assumes "zset_ok view k M s" and law: "complies view rlater f (sp_zrem k m)" and "f (redis_st s) = (x, r)"
  shows "zmembers view k s m' = None \<Longrightarrow> zmembers view k (s\<lparr>redis_st := r\<rparr>) m' = None"
  using law assms(3)
proof (cases rule: complies_any)
  case (same V)
  then show "zmembers view k s m' = None \<Longrightarrow> zmembers view k (s\<lparr>redis_st := r\<rparr>) m' = None"
    using zset_ok_later[OF assms(1) same(1)] by (simp add: zmembers_def)
next
  case (effect V y)
  from zset_ok_later[OF assms(1) effect(1)] have "cells V k = cells (view (redis_st s)) k" .
  with assms(1) effect(2) show "zmembers view k s m' = None \<Longrightarrow> zmembers view k (s\<lparr>redis_st := r\<rparr>) m' = None"
    by (cases rule: zset_ok_cases) (auto simp: sp_zrem_def zmembers_def zset_of_def split: if_splits)
qed

lemma pops_range:
  assumes "deadlines_ok E view s" and "zrangebyscore (rds E) deadlines_key now (redis_st s) = (x, r)"
    and "popping E acc p"
  shows "pops E view acc s p (s\<lparr>redis_st := r\<rparr>)"
proof -
  have "leaves deadlines_key (view (redis_st s)) (view r)"
    by (rule leaves_call[OF zrangebyscore_law frame_zrange assms(2)]) simp
  from leaves_deadlines[OF assms(1), of "s\<lparr>redis_st := r\<rparr>"] this assms(3) show ?thesis
    by (simp add: pops_def)
qed

lemma pops_step:
  assumes "popping E acc p" and "deadlines_ok E view s" and "p = Await g" and "g s = (q, s')"
  shows "pops E view acc s q s'"
  using assms(1)
proof cases
  case (pop_start now)
  obtain x r where r: "zrangebyscore (rds E) deadlines_key now (redis_st s) = (x, r)"
    by (cases "zrangebyscore (rds E) deadlines_key now (redis_st s)")
  from pop_start(2) assms(3,4) r have "s' = s\<lparr>redis_st := r\<rparr>" and "popping E [] q"
    by (auto simp: pop_expired_deadlines_def rcall_step intro: popping.intros split: sum.splits)
  with pops_range[OF assms(2) r] pop_start(1) show ?thesis by simp
next
  case (pop_loop ms)
  with assms(3) obtain m ms' where ms: "ms = m # ms'" by (cases ms) auto
  obtain x r where r: "zrem (rds E) deadlines_key m (redis_st s) = (x, r)"
    by (cases "zrem (rds E) deadlines_key m (redis_st s)")
  note ok = assms(2)[unfolded deadlines_ok_def]
  have s': "s' = s\<lparr>redis_st := r\<rparr>"
    using pop_loop assms(3,4) r by (auto simp: ms rcall_step split: sum.splits)
  have kept: "deadlines_ok E view s'" "\<forall>v. deadline_of E view s v = None \<longrightarrow> deadline_of E view s' v = None"
    using zset_ok_zrem[OF ok zrem_law r] zrem_any[OF ok zrem_law r] by (simp_all add: s' deadlines_ok_def deadline_of_def)
  show ?thesis
  proof (cases "\<exists>u. x = Inr 1 \<and> uuid_parse E m = Some u")
    case True
    then obtain u where u: "x = Inr 1" "uuid_parse E m = Some u" by blast
    then have "q = pop_deadlines_loop E ms' (acc @ [u])"
      using pop_loop assms(3,4) r by (simp add: ms rcall_step)
    then have "popping E (acc @ [u]) q" by (simp add: popping.pop_loop)
    moreover have run: "run (rcall (zrem (rds E) deadlines_key m)) s = (Inr 1, s')"
      unfolding run_rcall_Inr using r u(1) s' by blast
    note z = zrem_step[OF ok zrem_law run]
    have present: "zmembers view deadlines_key s m \<noteq> None" using z(3) by (auto split: if_splits)
    with ok have "m \<in> range (uuid_str E)" by (cases rule: zset_ok_cases) auto
    then have "m = uuid_str E u" using u(2) by (auto simp: uuid_round_trip)
    with present z(2) have "deadline_of E view s u \<noteq> None" "deadline_of E view s' u = None"
      by (simp_all add: deadline_of_def)
    ultimately show ?thesis using kept by (auto simp: pops_def)
  next
    case False
    then have "popping E acc q"
      using pop_loop assms(3,4) r
      by (auto simp: ms rcall_step intro: popping.intros split: sum.splits option.splits if_splits)
    with kept show ?thesis by (simp add: pops_def)
  qed
qed (use assms(3) in simp)

text \<open>Across an interleaving: who has taken out what.\<close>

definition shares :: "('r, 'p, reconciler_error, uuid list) io list \<Rightarrow> ('r, 'p) world \<Rightarrow> (nat \<Rightarrow> uuid list) \<Rightarrow> bool" where
  "shares ps s acc \<longleftrightarrow> deadlines_ok E view s
     \<and> (\<forall>i < length ps. popping E (acc i) (ps ! i) \<and> distinct (acc i) \<and> (\<forall>u \<in> set (acc i). deadline_of E view s u = None))
     \<and> (\<forall>i < length ps. \<forall>j < length ps. i \<noteq> j \<longrightarrow> set (acc i) \<inter> set (acc j) = {})"

lemma shares_step:
  assumes "shares ps s acc" and "interleave (ps, s) (qs, s')"
  shows "\<exists>acc'. shares qs s' acc'"
proof -
  from assms(2) obtain i g p where i: "i < length ps" "ps ! i = Await g" "g s = (p, s')" "qs = ps[i := p]"
    by (auto elim: interleaveE)
  from assms(1) i(1) have "popping E (acc i) (ps ! i)" "deadlines_ok E view s" unfolding shares_def by blast+
  from pops_step[OF this i(2,3)] have step: "pops E view (acc i) s p s'" .
  then have kept: "deadlines_ok E view s'" "\<And>v. deadline_of E view s v = None \<Longrightarrow> deadline_of E view s' v = None"
    unfolding pops_def by blast+
  obtain us where us: "popping E (acc i @ us) p" "distinct us"
    "\<And>u. u \<in> set us \<Longrightarrow> deadline_of E view s u \<noteq> None \<and> deadline_of E view s' u = None"
  proof -
    from step consider "popping E (acc i) p" | u where "popping E (acc i @ [u]) p"
        "deadline_of E view s u \<noteq> None" "deadline_of E view s' u = None"
      unfolding pops_def by blast
    then show thesis using that[of "[]"] that[of "[_]"] by cases simp_all
  qed
  have fresh: "u \<notin> set (acc j)" if "j < length ps" and "u \<in> set us" for u j
    using assms(1) that us(3) unfolding shares_def by blast
  have "shares qs s' (acc(i := acc i @ us))"
    unfolding shares_def
  proof (intro conjI allI impI)
    fix j
    assume j: "j < length qs"
    with i(4) have l: "j < length ps" by simp
    with assms(1) have old: "popping E (acc j) (ps ! j)" "distinct (acc j)" "\<forall>u \<in> set (acc j). deadline_of E view s u = None"
      unfolding shares_def by blast+
    show "popping E ((acc(i := acc i @ us)) j) (qs ! j)"
      using old(1) us(1) i(1,4) by (cases "j = i") simp_all
    show "distinct ((acc(i := acc i @ us)) j)"
      using old(2) us(2) fresh[OF i(1)] by (cases "j = i") auto
    show "\<forall>v \<in> set ((acc(i := acc i @ us)) j). deadline_of E view s' v = None"
      using old(3) us(3) kept(2) by (cases "j = i") auto
  next
    fix j k
    assume "j < length qs" "k < length qs" "j \<noteq> k"
    with i(4) have l: "j < length ps" "k < length ps" "j \<noteq> k" by simp_all
    with assms(1) have "set (acc j) \<inter> set (acc k) = {}" unfolding shares_def by blast
    then show "set ((acc(i := acc i @ us)) j) \<inter> set ((acc(i := acc i @ us)) k) = {}"
      using l(3) fresh[OF l(1)] fresh[OF l(2)] by (cases "j = i"; cases "k = i") auto
  qed (rule kept(1))
  then show ?thesis by blast
qed

lemma shares_interleaved:
  assumes "interleave\<^sup>*\<^sup>* (ps, s) (qs, s')" and "shares ps s acc"
  shows "\<exists>acc'. shares qs s' acc'"
  using assms(1)
proof (induction "(qs, s')" arbitrary: qs s' rule: rtranclp_induct)
  case base
  then show ?case using assms(2) by blast
next
  case (step c)
  obtain rs t where "c = (rs, t)" by (cases c)
  with step show ?case using shares_step by blast
qed

lemma exclusive_pops:
  assumes "deadlines_ok E view s"
    and "interleave\<^sup>*\<^sup>* (map (pop_expired_deadlines E) nows, s) (qs, s')"
    and "i < length qs" and "j < length qs" and "qs ! i = Ready (Inr as)" and "qs ! j = Ready (Inr bs)"
  shows "distinct as" and "i \<noteq> j \<Longrightarrow> set as \<inter> set bs = {}"
proof -
  have "shares (map (pop_expired_deadlines E) nows) s (\<lambda>_. [])"
    using assms(1) by (simp add: shares_def popping.pop_start)
  from shares_interleaved[OF assms(2) this] obtain acc where acc: "shares qs s' acc" by blast
  then have "as = acc i" "bs = acc j"
    using assms(3-6) popping_result unfolding shares_def by blast+
  with acc assms(3,4) show "distinct as" "i \<noteq> j \<Longrightarrow> set as \<inter> set bs = {}"
    unfolding shares_def by auto
qed

text \<open>The contract of due times holds wherever an interleaving of the engine's tasks has got to.\<close>

lemma due_after_interleaving:
  assumes "queues_ok E view s" and "windows_ok s"
    and "interleave\<^sup>*\<^sup>* (ps, s) (ps', s')" and "\<forall>p \<in> set ps. engine_task E cfg p"
  shows "deadlines_ok E view s'" and "escalations_ok view s'"
  using queues.interleaving_keeps[OF assms(3,4) refl refl refl] assms(1,2) by (simp_all add: queues_ok_def)

lemmas popped_deadlines = dl.pop_law
lemmas popped_escalations = esc.pop_law

end

section \<open>Properties\<close>

text \<open>C27. The windows in the map stay well formed whatever the tasks do and in whatever order, and
  whatever the services answer: each is stored under its own transaction id and holds, per source, an
  event of that source and that transaction.\<close>

theorem windows_stay_well_formed:
  assumes "windows_ok s" and "interleave\<^sup>*\<^sup>* (ps, s) (ps', s')" and "\<forall>p \<in> set ps. engine_task E cfg p"
    and "windows s' tx = Some w"
  shows "pt_transaction_id w = tx \<and> (\<forall>src e. events w src = Some e \<longrightarrow> pe_source e = src \<and> pe_transaction_id e = tx)"
proof -
  have "windows_ok s'" using wins.interleaving_keeps[OF assms(2,3) refl refl refl] assms(1) by blast
  then have "window_ok tx w" using assms(4) by (rule windows_ok_simps(5))
  then show ?thesis by (simp add: window_ok_def)
qed

text \<open>One handler run to its end is an interleaving.\<close>

lemma interleave_single: "run p s = (r, s') \<Longrightarrow> interleave\<^sup>*\<^sup>* ([p], s) ([Ready r], s')"
  using interleave_run[of 0 "[p]" s r s'] by simp

lemma single_engine_task: "engine_task E cfg p \<Longrightarrow> \<forall>q \<in> set [p]. engine_task E cfg q"
  by simp

lemmas one_event_interleaving = interleave_single[OF one_event_run]
lemmas first_event_task = single_engine_task[OF engine_task.intros(1)]

theorem windows_stay_well_formed_witness:
  "\<exists>w. windows one_event 7 = Some w \<and> pt_transaction_id w = 7"
  using windows_stay_well_formed[OF mem_start_ok(2) one_event_interleaving first_event_task, of 7]
    one_event_open by blast

text \<open>C16. The sorted sets implement the set of due times, at every point of every interleaving of the
  tasks: a successful pop returns exactly the transactions (or incidents) that are due, each once,
  and forgets exactly those.\<close>

theorem due_times_refined:
  assumes "redis_server E view dbl" and "queues_ok E view s" and "windows_ok s"
    and "interleave\<^sup>*\<^sup>* (ps, s) (ps', s')" and "\<forall>p \<in> set ps. engine_task E cfg p"
    and "run (pop_expired_deadlines E now) s' = (Inr ids, s1)"
    and "run (pop_expired_escalations E now) s' = (Inr is, s2)"
  shows "(distinct ids \<and> set ids = {tx. \<exists>i. deadline_of E view s' tx = Some i \<and> i \<le> dbl (sint now)}
        \<and> deadline_of E view s1 = deadline_of E view s' |` (- set ids))
    \<and> (distinct is \<and> set is = {k. \<exists>i. escalation_of view s' k = Some i \<and> i \<le> dbl (sint now)}
        \<and> escalation_of view s2 = escalation_of view s' |` (- set is))"
proof -
  note ok = redis_server.due_after_interleaving[OF assms(1-5)]
  show ?thesis
    using redis_server.popped_deadlines[OF assms(1) ok(1) assms(6)] redis_server.popped_escalations[OF assms(1) ok(2) assms(7)]
    by blast
qed

text \<open>C17. An expired window is handed to one timer only: when any number of pops run at once, on however
  many instances, and interleave in any way, no transaction is returned by two of them or twice by one.\<close>

theorem expired_windows_popped_once:
  assumes "redis_server E view dbl" and "deadlines_ok E view s"
    and "interleave\<^sup>*\<^sup>* (map (pop_expired_deadlines E) nows, s) (qs, s')"
    and "i < length qs" and "j < length qs" and "qs ! i = Ready (Inr as)" and "qs ! j = Ready (Inr bs)"
  shows "distinct as \<and> (i \<noteq> j \<longrightarrow> set as \<inter> set bs = {})"
  using redis_server.exclusive_pops[OF assms] by blast

text \<open>The first event's window is due at 3010 on the in-memory server.\<close>

lemma one_event_pops:
  "fst (run (pop_expired_deadlines mem_env 5000) one_event) = Inr [7]"
  "fst (run (pop_expired_escalations mem_env 5000) one_event) = Inr []"
  by (simp_all add: pop_expired_deadlines_def pop_expired_escalations_def one_event_eval engine_eval services_eval
      mem_zrange_i64_def)

theorem due_times_refined_witness:
  "{tx. \<exists>i. deadline_of mem_env mem_view one_event tx = Some i \<and> i \<le> sint (5000 :: i64)} = {7}
   \<and> deadline_of mem_env mem_view (snd (run (pop_expired_deadlines mem_env 5000) one_event)) 7 = None"
proof -
  have "run (pop_expired_deadlines mem_env 5000) one_event
      = (Inr [7], snd (run (pop_expired_deadlines mem_env 5000) one_event))"
    "run (pop_expired_escalations mem_env 5000) one_event
      = (Inr [], snd (run (pop_expired_escalations mem_env 5000) one_event))"
    using one_event_pops by (simp_all add: prod_eq_iff)
  note popped = due_times_refined[OF mem.redis_server_axioms mem_start_ok(1,2) one_event_interleaving first_event_task this]
  have "set [7 :: uuid] = {tx. \<exists>i. deadline_of mem_env mem_view one_event tx = Some i \<and> i \<le> sint (5000 :: i64)}"
    "deadline_of mem_env mem_view (snd (run (pop_expired_deadlines mem_env 5000) one_event))
       = deadline_of mem_env mem_view one_event |` (- set [7])"
    using popped by blast+
  then show ?thesis
    by (metis ComplD insertI1 list.simps(15) empty_set restrict_out)
qed

text \<open>Two timers read the same due window; the first removal wins.\<close>

definition two_pops :: "(mem_redis, pg_tables, reconciler_error, uuid list) io list" where
  "two_pops = map (pop_expired_deadlines mem_env) [5000, 6000]"

lemma two_pops_schedule: "fst (schedule [0, 1, 0, 1] (two_pops, one_event)) = [ok [7], ok []]"
  by (simp add: two_pops_def pop_expired_deadlines_def rcall_step one_event_eval services_eval
      deadlines_key_def)

theorem expired_windows_popped_once_witness:
  "\<exists>as bs. fst (schedule [0, 1, 0, 1] (two_pops, one_event)) = [ok as, ok bs] \<and> as = [7] \<and> set as \<inter> set bs = {}"
proof -
  let ?c = "schedule [0, 1, 0, 1] (two_pops, one_event)"
  have "interleave\<^sup>*\<^sup>* (map (pop_expired_deadlines mem_env) [5000, 6000], one_event) ([ok [7], ok []], snd ?c)"
    using schedule_interleave[of "(two_pops, one_event)" "[0, 1, 0, 1]"] two_pops_schedule
    unfolding two_pops_def by (metis prod.collapse)
  moreover have "deadlines_ok mem_env mem_view one_event" using one_event_ok(1) by (simp add: queues_ok_def)
  ultimately have "distinct [7 :: uuid] \<and> (0 \<noteq> (1 :: nat) \<longrightarrow> set [7 :: uuid] \<inter> set [] = {})"
    using expired_windows_popped_once[OF mem.redis_server_axioms, of one_event "[5000, 6000]" "[ok [7], ok []]"
        "snd ?c" 0 1 "[7]" "[]"] by simp
  with two_pops_schedule show ?thesis by simp
qed

end
