(* ===== verification/Unit_Tests.thy ===== *)
theory Unit_Tests imports Model
begin

text \<open>
  The unit tests of \<open>src/matcher/src/model.rs\<close>, as predicates: each is its body with the assertions as
  conjuncts and a panic as \<open>False\<close>. \<open>u\<close> is what the successive calls of \<open>Uuid::new_v4()\<close> return. The
  test of the JSON text of an event is left out, since the encoder is not the program's.
\<close>

definition make_event :: "uuid \<Rightarrow> uuid \<Rightarrow> source \<Rightarrow> i64 \<Rightarrow> i64 \<Rightarrow> payment_event" where
  "make_event ident tx src amount fee =
     \<lparr>event_id = ident, pe_transaction_id = tx, pe_source = src, amount_minor = amount, fee_minor = fee,
      pe_currency = ''UZS'', timestamp_ms = 1735689600000, pe_tx_type = ''card'', pe_merchant_id = None\<rparr>"

definition insert_event :: "source \<Rightarrow> payment_event \<Rightarrow> partial_transaction \<Rightarrow> partial_transaction" where
  "insert_event src e p = p\<lparr>events := (events p)(src \<mapsto> e)\<rparr>"

definition has_kind :: "incident_kind \<Rightarrow> reconciliation_result \<Rightarrow> bool" where
  "has_kind k r = (case r of Mismatched incs \<Rightarrow> list_ex (\<lambda>i. incident_type i = k) incs | Matched \<Rightarrow> False)"

definition detail_of :: "source \<Rightarrow> reconciliation_detail list \<Rightarrow> reconciliation_detail option" where
  "detail_of src ds = List.find (\<lambda>d. rd_source d = src) ds"

definition invariants_pass_on_correct_flow :: "(nat \<Rightarrow> uuid) \<Rightarrow> bool" where
  "invariants_pass_on_correct_flow u =
     (let p = new_partial (u 0) 0 2000;
          p = insert_event Merchant (make_event (u 1) (u 2) Merchant 5000000 0) p;
          p = insert_event Gateway (make_event (u 3) (u 4) Gateway 5000000 25000) p;
          p = insert_event Bank (make_event (u 5) (u 6) Bank 4975000 10000) p
      in case check_invariants p of Matched \<Rightarrow> True | Mismatched _ \<Rightarrow> False)"

definition invariants_detect_amount_mismatch :: "(nat \<Rightarrow> uuid) \<Rightarrow> bool" where
  "invariants_detect_amount_mismatch u =
     (let p = new_partial (u 0) 0 2000;
          p = insert_event Merchant (make_event (u 1) (u 2) Merchant 5000000 0) p;
          p = insert_event Gateway (make_event (u 3) (u 4) Gateway 5100000 25000) p;
          p = insert_event Bank (make_event (u 5) (u 6) Bank 5075000 10000) p
      in has_kind AmountMismatch (check_invariants p))"

definition invariants_detect_fee_mismatch :: "(nat \<Rightarrow> uuid) \<Rightarrow> bool" where
  "invariants_detect_fee_mismatch u =
     (let p = new_partial (u 0) 0 2000;
          p = insert_event Merchant (make_event (u 1) (u 2) Merchant 5000000 0) p;
          p = insert_event Gateway (make_event (u 3) (u 4) Gateway 5000000 25000) p;
          p = insert_event Bank (make_event (u 5) (u 6) Bank 4900000 10000) p
      in has_kind FeeMismatch (check_invariants p))"

definition invariants_detect_currency_mismatch :: "(nat \<Rightarrow> uuid) \<Rightarrow> bool" where
  "invariants_detect_currency_mismatch u =
     (let p = new_partial (u 0) 0 2000;
          g = (make_event (u 1) (u 2) Gateway 5000000 25000)\<lparr>pe_currency := ''USD''\<rparr>;
          p = insert_event Merchant (make_event (u 3) (u 4) Merchant 5000000 0) p;
          p = insert_event Gateway g p;
          p = insert_event Bank (make_event (u 5) (u 6) Bank 4975000 10000) p
      in has_kind CurrencyMismatch (check_invariants p))"

definition missing_sources_reports_correctly :: "(nat \<Rightarrow> uuid) \<Rightarrow> bool" where
  "missing_sources_reports_correctly u =
     (let p = new_partial (u 0) 0 2000;
          p = insert_event Merchant (make_event (u 1) (u 2) Merchant 5000000 0) p;
          missing = missing_sources p
      in length missing = 2 \<and> Gateway \<in> set missing \<and> Bank \<in> set missing)"

definition build_details_populates_correctly :: "(nat \<Rightarrow> uuid) \<Rightarrow> bool" where
  "build_details_populates_correctly u =
     (let p = new_partial (u 0) 0 2000;
          p = insert_event Merchant (make_event (u 1) (u 2) Merchant 5000000 0) p;
          p = insert_event Gateway (make_event (u 3) (u 4) Gateway 5000000 25000) p;
          ds = build_details p
      in length ds = 2
       \<and> (case detail_of Merchant ds of None \<Rightarrow> False | Some d \<Rightarrow>
            amount_actual d = Some 5000000 \<and> amount_expected d = Some 5000000 \<and> is_matched d \<and> mismatch_reason d = None)
       \<and> (case detail_of Gateway ds of None \<Rightarrow> False | Some d \<Rightarrow>
            amount_actual d = Some 5000000 \<and> amount_expected d = Some 5000000 \<and> is_matched d \<and> mismatch_reason d = None))"

definition build_details_includes_mismatch_reason :: "(nat \<Rightarrow> uuid) \<Rightarrow> bool" where
  "build_details_includes_mismatch_reason u =
     (let p = new_partial (u 0) 0 2000;
          p = insert_event Merchant (make_event (u 1) (u 2) Merchant 5000000 0) p;
          p = insert_event Gateway (make_event (u 3) (u 4) Gateway 5100000 25000) p;
          p = insert_event Bank (make_event (u 5) (u 6) Bank 5075000 10000) p;
          ds = build_details p
      in (case detail_of Merchant ds of None \<Rightarrow> False | Some d \<Rightarrow> mismatch_reason d = Some ''merchant amount mismatch'')
       \<and> (case detail_of Gateway ds of None \<Rightarrow> False | Some d \<Rightarrow> mismatch_reason d = Some ''gateway consistency mismatch''))"

lemmas test_eval = Let_def new_partial_def insert_event_def make_event_def has_kind_def detail_of_def
  check_invariants_def missing_sources_def source_all_def build_details_def both_def

section \<open>Properties\<close>

text \<open>The model passes the program's own unit tests, whatever uuids are drawn.\<close>

theorem unit_tests_hold:
  "invariants_pass_on_correct_flow u \<and> invariants_detect_amount_mismatch u
   \<and> invariants_detect_fee_mismatch u \<and> invariants_detect_currency_mismatch u
   \<and> missing_sources_reports_correctly u \<and> build_details_populates_correctly u
   \<and> build_details_includes_mismatch_reason u"
  by (intro conjI)
    (simp_all add: invariants_pass_on_correct_flow_def invariants_detect_amount_mismatch_def
      invariants_detect_fee_mismatch_def invariants_detect_currency_mismatch_def
      missing_sources_reports_correctly_def build_details_populates_correctly_def
      build_details_includes_mismatch_reason_def test_eval)

end
