(* ===== verification/Latency_Lists.thy ===== *)
theory Latency_Lists imports Window_Lifecycle
begin

text \<open>
  The latencies kept for the statistics: after \<open>record_event_processed\<close> each of the two lists starts with
  the new value, followed by the newest of the old ones, and has at most a thousand entries.
\<close>

text \<open>A list key without expiry, or none for the empty list.\<close>

definition lasting_list :: "('r \<Rightarrow> rview) \<Rightarrow> string \<Rightarrow> string list \<Rightarrow> ('r, 'p) world \<Rightarrow> bool" where
  "lasting_list view k l s \<longleftrightarrow>
     cells (view (redis_st s)) k = (if l = [] then None else Some (RList l, None))"

definition total_key :: string where "total_key = ''metrics:latencies:total''"
definition logic_key :: string where "logic_key = ''metrics:latencies:logic''"

lemma lasting_unexpired [simp]:
  "unexpired c (if l = [] then None else Some (RList l, None)) = (if l = [] then None else Some (RList l, None))"
  by simp

lemma lasting_list_reads [simp]: "lasting_list view k l (s\<lparr>reads := n\<rparr>) = lasting_list view k l s"
  by (simp add: lasting_list_def)

context redis_server
begin

lemma lasting_other:
  assumes "lasting_list view k l s" and "complies view rlater f R" and "writes_only K R" and "k \<notin> K"
    and "run (rcall f) s = (Inr x, s')"
  shows "lasting_list view k l s'"
proof -
  from assms(5) obtain r where r: "f (redis_st s) = (Inr x, r)" "s' = s\<lparr>redis_st := r\<rparr>"
    unfolding run_rcall_Inr by blast
  from complies_frame[OF assms(2-4) r(1)] assms(1) r(2) show ?thesis by (simp add: lasting_list_def)
qed

lemma lasting_push:
  assumes "lasting_list view k l s" and "run (rcall (lpush (rds E) k i)) s = (Inr x, s')"
  shows "lasting_list view k (show_i64 i # l) s'"
proof -
  from assms(2) obtain r where r: "lpush (rds E) k i (redis_st s) = (Inr x, r)" "s' = s\<lparr>redis_st := r\<rparr>"
    unfolding run_rcall_Inr by blast
  from lpush_law r(1) obtain V where V: "rlater (view (redis_st s)) V" "sp_lpush k i V x (view r)"
    by (rule complies_ok)
  from V(1) assms(1) have "cells V k = (if l = [] then None else Some (RList l, None))"
    by (auto simp: rlater_def lasting_list_def)
  with V(2) r(2) show ?thesis by (simp add: sp_lpush_def lasting_list_def split: if_splits)
qed

lemma lasting_trim:
  assumes "lasting_list view k l s" and "run (rcall (ltrim (rds E) k 0 999)) s = (Inr x, s')"
  shows "lasting_list view k (take 1000 l) s'"
proof -
  from assms(2) obtain r where r: "ltrim (rds E) k 0 999 (redis_st s) = (Inr x, r)" "s' = s\<lparr>redis_st := r\<rparr>"
    unfolding run_rcall_Inr by blast
  from ltrim_law r(1) obtain V where V: "rlater (view (redis_st s)) V" "sp_ltrim k 999 V x (view r)"
    by (rule complies_ok)
  from V(1) assms(1) have "cells V k = (if l = [] then None else Some (RList l, None))"
    by (auto simp: rlater_def lasting_list_def)
  moreover have "ltrim_length 999 l = 1000" by (simp add: ltrim_length_def)
  ultimately show ?thesis using V(2) r(2)
    by (simp add: sp_ltrim_def lasting_list_def split: if_splits list.splits)
qed

lemma record_lists:
  assumes lists: "lasting_list view total_key lt s" "lasting_list view logic_key ll s"
    and run: "run (record_event_processed E src t l) s = (Inr (), s')"
  shows "lasting_list view total_key (show_i64 t # take 999 lt) s'"
    and "lasting_list view logic_key (show_i64 l # take 999 ll) s'"
proof -
  from run obtain s1 now s2 s3 s4 s5 s6 s7 s8 where
    c1: "run (rcall (incr (rds E) ''metrics:events:total'' 1)) s = (Inr (), s1)" and
    c2: "run (read_clock (utc_rfc3339 E) :: ('r, 'p, reconciler_error, string) io) s1 = (Inr now, s2)" and
    c3: "run (rcall (setex (rds E) (''source:last_seen:'' @ src) 3600 now)) s2 = (Inr (), s3)" and
    c4: "run (rcall (incr (rds E) (''source:events:'' @ src) 1)) s3 = (Inr (), s4)" and
    c5: "run (rcall (lpush (rds E) total_key t)) s4 = (Inr (), s5)" and
    c6: "run (rcall (ltrim (rds E) total_key 0 999)) s5 = (Inr (), s6)" and
    c7: "run (rcall (lpush (rds E) logic_key l)) s6 = (Inr (), s7)" and
    c8: "run (rcall (ltrim (rds E) logic_key 0 999)) s7 = (Inr (), s8)" and
    c9: "run (rcall (expire (rds E) ''metrics:events:total'' 3600)) s8 = (Inr (), s')"
    unfolding record_event_processed_def total_key_def[symmetric] logic_key_def[symmetric] run_and_then_Inr
    by (auto simp: run.simps(1))
  have s2: "s2 = s1\<lparr>reads := Suc (reads s1)\<rparr>" using c2 by (simp add: run_read_clock)
  have before: "lasting_list view k xs s4"
    if "lasting_list view k xs s" and k: "k = total_key \<or> k = logic_key" for k xs
  proof -
    note other = lasting_other[where k = k and l = xs]
    have "lasting_list view k xs s1" by (rule other[OF that(1) incr_law frame_incr _ c1]) (use k in \<open>auto simp: total_key_def logic_key_def\<close>)
    then have "lasting_list view k xs s2" by (simp add: s2)
    then have "lasting_list view k xs s3" by (rule other[OF _ setex_law frame_setex _ c3]) (use k in \<open>auto simp: total_key_def logic_key_def\<close>)
    then show ?thesis by (rule other[OF _ incr_law frame_incr _ c4]) (use k in \<open>auto simp: total_key_def logic_key_def\<close>)
  qed
  have total: "lasting_list view total_key (show_i64 t # take 999 lt) s6"
    using lasting_trim[OF lasting_push[OF before[OF lists(1)] c5] c6] by simp
  have "lasting_list view logic_key ll s5"
    by (rule lasting_other[OF before[OF lists(2)] lpush_law frame_lpush _ c5]) (auto simp: total_key_def logic_key_def)
  then have "lasting_list view logic_key ll s6"
    by (rule lasting_other[OF _ ltrim_law frame_ltrim _ c6]) (auto simp: total_key_def logic_key_def)
  from lasting_trim[OF lasting_push[OF this c7] c8]
  have logic: "lasting_list view logic_key (show_i64 l # take 999 ll) s8" by simp
  have "lasting_list view total_key (show_i64 t # take 999 lt) s7"
    by (rule lasting_other[OF total lpush_law frame_lpush _ c7]) (auto simp: total_key_def logic_key_def)
  then have "lasting_list view total_key (show_i64 t # take 999 lt) s8"
    by (rule lasting_other[OF _ ltrim_law frame_ltrim _ c8]) (auto simp: total_key_def logic_key_def)
  then show "lasting_list view total_key (show_i64 t # take 999 lt) s'"
    by (rule lasting_other[OF _ expire_law frame_expire _ c9]) (auto simp: total_key_def logic_key_def)
  from logic show "lasting_list view logic_key (show_i64 l # take 999 ll) s'"
    by (rule lasting_other[OF _ expire_law frame_expire _ c9]) (auto simp: total_key_def logic_key_def)
qed

end

section \<open>Properties\<close>

text \<open>C40. Recording an event keeps the thousand newest latencies: when it returns \<open>Ok\<close>, each list is the new
  value followed by at most 999 of the old ones in their order.\<close>

theorem newest_latencies_kept:
  assumes "redis_server E view dbl"
    and "lasting_list view total_key totals s" and "lasting_list view logic_key logics s"
    and "run (record_event_processed E src total_micros logic_micros) s = (Inr (), s')"
  shows "\<exists>totals' logics'. lasting_list view total_key totals' s' \<and> lasting_list view logic_key logics' s'
    \<and> totals' = show_i64 total_micros # take 999 totals \<and> logics' = show_i64 logic_micros # take 999 logics
    \<and> length totals' \<le> 1000 \<and> length logics' \<le> 1000"
  using redis_server.record_lists[OF assms] by simp

theorem newest_latencies_kept_witness:
  "lasting_list mem_view total_key [''5'', ''12'']
     (snd (run (record_event_processed mem_env ''bank'' 5 6) one_event))"
proof -
  let ?r = "run (record_event_processed mem_env ''bank'' 5 6) one_event"
  have lists: "lasting_list mem_view total_key [''12''] one_event" "lasting_list mem_view logic_key [''11''] one_event"
    by (simp_all add: lasting_list_def total_key_def logic_key_def one_event_eval mem_lookup_def alive_def cell_view_def)
  have "fst ?r = Inr ()"
    by (simp add: one_event_eval engine_eval services_eval)
  then have "?r = (Inr (), snd ?r)" by (simp add: prod_eq_iff)
  from newest_latencies_kept[OF mem.redis_server_axioms lists this] show ?thesis
    by (auto simp: show_i64_def show_int_def show_nat_eval digit_chars)
qed

end
