(* ===== verification/Repeated_Reports.thy ===== *)
theory Repeated_Reports imports Late_Events
begin

text \<open>
  Reporting is not idempotent: incidents are inserted under new numbers whether or not they have been
  reported before. A handler that fails after its first report (the publication comes after the row)
  leaves the complete window in the map, and the window's timeout reports everything again.
\<close>

definition describes :: "incident \<Rightarrow> incident_row \<Rightarrow> bool" where
  "describes inc row \<longleftrightarrow> ir_transaction_id row = in_transaction_id inc \<and> ir_type row = incident_type inc
     \<and> ir_description row = description inc"

definition reported_besides :: "i64 \<Rightarrow> incident \<Rightarrow> pg_tables \<Rightarrow> bool" where
  "reported_besides i inc T \<longleftrightarrow> (\<exists>j b. j \<noteq> i \<and> describes inc b \<and> history j b T)"

lemma stable_ex: "(\<And>x. stable A (P x)) \<Longrightarrow> stable A (\<lambda>T. \<exists>x. P x T)"
  unfolding stable_def by blast

lemma stable_const: "stable A (\<lambda>T. b)"
  by (simp add: stable_def)

lemma reported_besides_stable: "stable engine_stmt (reported_besides i inc)"
  unfolding reported_besides_def[abs_def] by (intro stable_ex stable_conj stable_const history_stable)

lemma report_again_stable: "stable engine_stmt (\<lambda>T. history i a T \<and> reported_besides i inc T)"
  by (intro stable_conj history_stable reported_besides_stable)

context pg_server
begin

lemma create_incident_again:
  "hoare (on_tables tables (history i a)) (create_incident E inc)
     (\<lambda>_. on_tables tables (\<lambda>T. history i a T \<and> reported_besides i inc T)) (\<lambda>_ _. True)"
proof (rule hoareI)
  fix s j s'
  assume before: "on_tables tables (history i a) s" and run: "run (create_incident E inc) s = (Inr j, s')"
  from before have sequence: "sequence_ok (tables (pg_st s))" and used: "incidents (tables (pg_st s)) i \<noteq> None"
    by (auto simp: on_tables_def history_def)
  from create_incident_fresh(1)[OF sequence run] obtain b where b: "incidents (tables (pg_st s)) j = None"
    "incidents (tables (pg_st s')) j = Some b" "describes inc b"
    by (auto simp: fresh_row_def describes_def)
  have "keeps (on_tables tables (history i a)) (\<lambda>_. True) (create_incident E inc)"
    by (rule create_incident_keeps[OF history_stable]) simp
  from keeps_run[OF this before run] have after: "history i a (tables (pg_st s'))" by (simp add: on_tables_def)
  then have "history j b (tables (pg_st s'))" using b(2) by (simp add: history_def)
  with after b used show "on_tables tables (\<lambda>T. history i a T \<and> reported_besides i inc T) s'"
    unfolding on_tables_def reported_besides_def by metis
qed simp

lemma persist_again:
  "hoare (on_tables tables (history i a)) (persist_incident E cfg inc)
     (\<lambda>_. on_tables tables (\<lambda>T. history i a T \<and> reported_besides i inc T)) (\<lambda>_ _. True)"
  unfolding persist_incident_def
  by (rule hoare_and_then[OF hoare_lift[OF create_incident_again]])
    (intro tables_hoare tables_rules tables_if tables_emit tables_misc)

lemma persist_all_again:
  assumes "inc \<in> set incs"
  shows "hoare (on_tables tables (history i a)) (for_each incs (persist_incident E cfg))
     (\<lambda>_. on_tables tables (\<lambda>T. history i a T \<and> reported_besides i inc T)) (\<lambda>_ _. True)"
  using assms
proof (induction incs)
  case (Cons x incs)
  show ?case
  proof (cases "x = inc")
    case True
    have "keeps (on_tables tables (\<lambda>T. history i a T \<and> reported_besides i inc T)) (\<lambda>_. True)
        (for_each incs (persist_incident E cfg))"
      by (intro keeps_for_each persist_keeps[OF report_again_stable]) simp
    from hoare_and_then[OF persist_again tables_hoare[OF this]] True show ?thesis by simp
  next
    case False
    have "keeps (on_tables tables (history i a)) (\<lambda>_. True) (persist_incident E cfg x)"
      by (intro persist_keeps[OF history_stable]) simp
    from hoare_and_then[OF tables_hoare[OF this] Cons.IH] False Cons.prems show ?thesis by simp
  qed
qed simp

lemma finalize_again:
  assumes "inc \<in> set (reported (check_invariants w))"
  shows "hoare (on_tables tables (history i a)) (finalize_window E cfg w)
     (\<lambda>_. on_tables tables (\<lambda>T. history i a T \<and> reported_besides i inc T)) (\<lambda>_ _. True)"
proof -
  from assms obtain incs where incs: "check_invariants w = Mismatched incs" "inc \<in> set incs"
    by (cases "check_invariants w") simp_all
  note kept = tables_hoare[where P = "history i a"]
  have recording: "keeps (on_tables tables (history i a)) (\<lambda>_. True) (ignore (record_match_result E False))"
    by (intro tables_rules tables_misc)
  have report: "hoare (on_tables tables (history i a))
      (report_result E cfg (pt_transaction_id w) now (check_invariants w))
      (\<lambda>_. on_tables tables (\<lambda>T. history i a T \<and> reported_besides i inc T)) (\<lambda>_ _. True)" for now
    using hoare_and_then[OF kept[OF recording] persist_all_again[OF incs(2)]]
    by (simp add: incs(1) report_result_def)
  have writes: "keeps (on_tables tables (history i a)) (\<lambda>_. True) (lift (upsert_transaction E tx st cur ty mid ms))"
    "keeps (on_tables tables (history i a)) (\<lambda>_. True) (lift (upsert_reconciliation_details E tx ds))" for tx st cur ty mid ms ds
    by (intro keeps_map_err upsert_transaction_keeps[OF history_stable] upsert_details_keeps[OF history_stable]; simp)+
  show ?thesis
    unfolding finalize_window_def Let_def
    by (intro hoare_and_then[OF kept[OF tables_misc(4)]] hoare_and_then[OF kept[OF tables_misc(5)]]
        hoare_and_then[OF kept[OF writes(1)]] hoare_and_then[OF kept[OF writes(2)]] hoare_and_then[OF report]
        tables_hoare[OF tables_cleanup])
qed

lemma timeout_again:
  assumes "windows s tx = Some w" and "is_complete w (expected_sources_count cfg)"
    and "inc \<in> set (reported (check_invariants w))" and "history i a (tables (pg_st s))"
    and "run (handle_timeout E cfg tx) s = (Inr (), s')"
  shows "history i a (tables (pg_st s')) \<and> reported_besides i inc (tables (pg_st s'))"
proof -
  have finalized: "run (finalize_window E cfg w) (s\<lparr>windows := (windows s)(tx := None)\<rparr>) = (Inr (), s')"
    using assms(1,2,5) by (simp add: handle_timeout_def run_and_then windows_remove_def run_atomic)
  have before: "on_tables tables (history i a) (s\<lparr>windows := (windows s)(tx := None)\<rparr>)"
    using assms(4) by (simp add: on_tables_def)
  from hoare_Inr[OF finalize_again[OF assms(3)] before finalized] show ?thesis by (simp add: on_tables_def)
qed

end

section \<open>Properties\<close>

text \<open>C15. An incident can be reported twice: when a complete window is still in the map although one of its
  incidents is already a row (the handler of its last event failed after reporting), the timeout that
  returns \<open>Ok\<close> inserts the same incident again under another number.\<close>

theorem incident_reported_twice:
  assumes "pg_server E tables" and "windows s tx = Some w"
    and "is_complete w (expected_sources_count cfg)" and "inc \<in> set (reported (check_invariants w))"
    and "sequence_ok (tables (pg_st s))" and "incidents (tables (pg_st s)) i = Some row" and "describes inc row"
    and "run (handle_timeout E cfg tx) s = (Inr (), s')"
  shows "\<exists>j row1 row2. j \<noteq> i \<and> incidents (tables (pg_st s')) i = Some row1 \<and> describes inc row1
    \<and> incidents (tables (pg_st s')) j = Some row2 \<and> describes inc row2"
proof -
  have "history i row (tables (pg_st s))" using assms(5,6) by (simp add: history_def)
  from pg_server.timeout_again[OF assms(1-4) this assms(8)] assms(7) show ?thesis
    unfolding reported_besides_def history_def continues_def describes_def by force
qed

text \<open>The last event of a transaction, with a wrong amount, while nothing can be published.\<close>

definition no_publish :: "(mem_redis, pg_tables) env" where
  "no_publish = mem_env\<lparr>rds := mem_rds\<lparr>publish_cmd := (\<lambda>ch m r. (Inl ''IOERR'', r))\<rparr>\<rparr>"

lemma no_publish_simps [simp]:
  "rds no_publish = mem_rds\<lparr>publish_cmd := (\<lambda>ch m r. (Inl ''IOERR'', r))\<rparr>" "pgs no_publish = mem_pgs"
  "uuid_str no_publish = uuid_str mem_env" "uuid_parse no_publish = uuid_parse mem_env"
  "utc_millis no_publish = utc_millis mem_env" "utc_rfc3339 no_publish = utc_rfc3339 mem_env"
  "elapsed_micros no_publish = elapsed_micros mem_env" "window_to_json no_publish = window_to_json mem_env"
  "event_to_json no_publish = event_to_json mem_env" "map_order no_publish = map_order mem_env"
  "f64_of_i64 no_publish = f64_of_i64 mem_env" "f64_div no_publish = f64_div mem_env"
  by (simp_all add: no_publish_def)

definition reported_once :: "(mem_redis, pg_tables) world" where
  "reported_once = snd (run (handle_event no_publish mem_cfg (mem_message 3 Bank 80 0)) two_events)"

lemma reported_once_outcome:
  "run (handle_event no_publish mem_cfg (mem_message 3 Bank 80 0)) two_events =
     (Inl (Reconciler (Redis ''IOERR'')),
      \<lparr>redis_st =
        \<lparr>m_clock = 0,
         m_cells = AList.update ''incident_escalations'' (CZset [(''1'', 11022)], None)
          (AList.update ''metrics:matches:failed'' (CStr ''1'', None)
           [(''dedup:event:1'', CStr ''1'', Some 600000),
            (''sources:7'', CSet [''bank'', ''gateway'', ''merchant''], Some 60000),
            (''deadlines'', CZset [(''7'', 3010)], None),
            (''window:7'', CStr ''7'', Some 30000),
            (''metrics:events:total'', CStr ''2'', Some 3600000),
            (''source:last_seen:merchant'', CStr ''13'', Some 3600000),
            (''source:events:merchant'', CStr ''1'', None),
            (''metrics:latencies:total'', CList [''16'', ''12''], None),
            (''metrics:latencies:logic'', CList [''26'', ''11''], None),
            (''dedup:event:2'', CStr ''1'', Some 600000),
            (''source:last_seen:gateway'', CStr ''17'', Some 3600000),
            (''source:events:gateway'', CStr ''1'', None),
            (''dedup:event:3'', CStr ''1'', Some 600000)]),
         m_sent = [(''reconciliation.events'', ''received''), (''reconciliation.events'', ''progress''),
           (''reconciliation.events'', ''progress'')],
         m_groups = [], m_new = [], m_pending = []\<rparr>,
       pg_st =
        \<lparr>pg_now = 0,
         transactions = [7 \<mapsto>
           \<lparr>tr_status = St_mismatch, tr_merchant_id = None, tr_tx_type = ''card'', tr_currency = ''UZS'',
            tr_created_at = 0, tr_updated_at = 0, tr_processing_time_ms = 66\<rparr>],
         details = [
           (7, Merchant) \<mapsto>
           \<lparr>dr_amount_expected = Some 100, dr_amount_actual = Some 100, dr_fee_expected = Some 0,
            dr_fee_actual = Some 0, dr_is_matched = True, dr_mismatch_reason = None, dr_received_at = 0\<rparr>,
           (7, Gateway) \<mapsto>
           \<lparr>dr_amount_expected = Some 100, dr_amount_actual = Some 100, dr_fee_expected = None,
            dr_fee_actual = Some 10, dr_is_matched = True,
            dr_mismatch_reason = Some ''gateway consistency mismatch'', dr_received_at = 0\<rparr>,
           (7, Bank) \<mapsto>
           \<lparr>dr_amount_expected = Some 90, dr_amount_actual = Some 80, dr_fee_expected = None,
            dr_fee_actual = Some 0, dr_is_matched = False, dr_mismatch_reason = Some ''bank amount mismatch'',
            dr_received_at = 0\<rparr>],
         incidents = [1 \<mapsto>
           \<lparr>ir_transaction_id = 7, ir_type = FeeMismatch, ir_severity = 1,
            ir_description = fee_description (sm_event (mem_message 2 Gateway 100 10)) 90
              (sm_event (mem_message 3 Bank 80 0)),
            ir_status = Is_open, ir_created_at = 0, ir_escalated_at = None\<rparr>],
         next_incident = 2\<rparr>,
       windows = [7 \<mapsto>
         \<lparr>pt_transaction_id = 7,
          events = [Merchant \<mapsto> sm_event (mem_message 1 Merchant 100 0),
            Gateway \<mapsto> sm_event (mem_message 2 Gateway 100 10), Bank \<mapsto> sm_event (mem_message 3 Bank 80 0)],
          first_seen_at_ms = 1010, deadline_ms = 3010, processing_time_micros = 26\<rparr>],
       reads = 23\<rparr>)"
  apply (simp add: two_events_eval ordered_eval log_eval scenario_eval cong: ordered_congs)
  apply (simp add: finalize_window_def Let_def verdict_eval)
  apply (simp add: event_eval report_result_def cleanup_window_def upsert_transaction_def
      upsert_reconciliation_details_def log_eval scenario_eval cong: state_congs)
  apply (simp add: ordered_eval log_eval scenario_eval cong: ordered_congs)
  done

lemmas reported_once_eval = reported_once_def[unfolded reported_once_outcome snd_conv]

lemma reported_once_timeout: "fst (run (handle_timeout mem_env mem_cfg 7) reported_once) = Inr ()"
  apply (simp add: reported_once_eval handle_timeout_def[THEN run_unfold] windows_remove_def[THEN run_unfold]
      ordered_eval log_eval scenario_eval cong: ordered_congs)
  apply (simp add: finalize_window_def Let_def verdict_eval)
  apply (simp add: event_eval report_result_def cleanup_window_def upsert_transaction_def
      upsert_reconciliation_details_def log_eval scenario_eval cong: state_congs)
  apply (simp add: ordered_eval log_eval scenario_eval cong: ordered_congs)
  done

theorem incident_reported_twice_witness:
  "\<exists>j row1 row2. j \<noteq> 1 \<and> ir_type row1 = FeeMismatch \<and> ir_type row2 = FeeMismatch
    \<and> incidents (pg_st (snd (run (handle_timeout mem_env mem_cfg 7) reported_once))) 1 = Some row1
    \<and> incidents (pg_st (snd (run (handle_timeout mem_env mem_cfg 7) reported_once))) j = Some row2"
proof -
  obtain w row where w: "windows reported_once 7 = Some w" "incidents (pg_st reported_once) 1 = Some row"
    and inc: "is_complete w (expected_sources_count mem_cfg)"
      "\<lparr>in_transaction_id = 7, incident_type = FeeMismatch, severity = 1, description = ir_description row\<rparr>
         \<in> set (reported (check_invariants w))" "ir_transaction_id row = 7" "ir_type row = FeeMismatch"
    by (simp add: reported_once_eval scenario_eval check_invariants_def both_def is_complete_def
        events_len_def source_all_def)
  have seq: "sequence_ok (pg_st reported_once)"
    by (simp add: reported_once_eval sequence_ok_def)
  have run: "run (handle_timeout mem_env mem_cfg 7) reported_once =
      (Inr (), snd (run (handle_timeout mem_env mem_cfg 7) reported_once))"
    using reported_once_timeout by (simp add: prod_eq_iff)
  show ?thesis
    using incident_reported_twice[OF mem.pg_server_axioms w(1) inc(1,2) _ _ _ run, of 1 row] seq w(2) inc(3,4)
    by (auto simp: describes_def)
qed

end
