(* ===== verification/Restart.thy ===== *)
theory Restart imports Saved_Windows Due_Sets Startup
begin

text \<open>
  Crashes and restarts. A life of the reconciler starts with an empty map over the services as the last
  life left them, restores the saved windows, runs its two workers, and may stop at any step, in the
  start-up too. What one life saves is well formed, so the next one restores well-formed windows.
\<close>

section \<open>Lives of the process\<close>

inductive life ::
  "('r, 'p) env \<Rightarrow> ('c \<Rightarrow> ('r, unit) call) \<Rightarrow> ('r, 'p) world \<Rightarrow> ('r, 'p) world \<Rightarrow> bool" for E manager where
  life_starting: "interleave\<^sup>*\<^sup>* ([startup fuel E loaded pool migrate open_client manager], s) (ps, s') \<Longrightarrow>
     life E manager s s'"
| life_working: "run (startup fuel E loaded pool migrate open_client manager) s = (Inr (Some cfg), s1) \<Longrightarrow>
     interleave\<^sup>*\<^sup>* ([stream_run n E cfg, timer_run m E cfg], s1) (ps, s') \<Longrightarrow> life E manager s s'"

text \<open>What the keys of saved windows hold decodes, if at all, to a well-formed window.\<close>

definition copy_ok :: "('r, 'p) env \<Rightarrow> (rval \<times> int option) option \<Rightarrow> bool" where
  "copy_ok E e \<longleftrightarrow> (\<forall>t T w. e = Some (RStr t, T) \<longrightarrow> window_from_json E t = Inr w \<longrightarrow> window_ok (pt_transaction_id w) w)"

definition saved_ok :: "('r, 'p) env \<Rightarrow> ('r \<Rightarrow> rview) \<Rightarrow> ('r, 'p) world \<Rightarrow> bool" where
  "saved_ok E view s \<longleftrightarrow> (\<forall>k. starts_with ''window:'' k \<longrightarrow> copy_ok E (cells (view (redis_st s)) k))"

lemma copy_ok_unexpired: "copy_ok E e \<Longrightarrow> copy_ok E (unexpired c e)"
  unfolding copy_ok_def by (auto dest: unexpired_Some)

lemma copy_ok_None [simp]: "copy_ok E None"
  by (simp add: copy_ok_def)

lemma copy_ok_leaves: "leaves k V V' \<Longrightarrow> copy_ok E (cells V k) \<Longrightarrow> copy_ok E (cells V' k)"
  by (auto simp: leaves_def copy_ok_unexpired)

lemma saved_ok_frames [simp]:
  "saved_ok E view (s\<lparr>pg_st := p\<rparr>) = saved_ok E view s"
  "saved_ok E view (s\<lparr>reads := n\<rparr>) = saved_ok E view s"
  "saved_ok E view (s\<lparr>windows := m\<rparr>) = saved_ok E view s"
  by (simp_all add: saved_ok_def)

lemma not_window_keys:
  "\<not> starts_with ''window:'' (dedup_key E u)" "\<not> starts_with ''window:'' (sources_key E u)"
  "\<not> starts_with ''window:'' deadlines_key" "\<not> starts_with ''window:'' escalations_key"
  "counter_key k \<Longrightarrow> \<not> starts_with ''window:'' k"
proof -
  show "counter_key k \<Longrightarrow> \<not> starts_with ''window:'' k"
    unfolding counter_key_def by (cases k) auto
qed (simp_all add: dedup_key_def sources_key_def deadlines_key_def escalations_key_def)

section \<open>What the tasks save\<close>

text \<open>The encoder's texts decode to what was encoded; creating the consumer group and connecting leave the
  keys alone.\<close>

locale restartable = redis_server E view dbl
  for E :: "('r, 'p) env" and view :: "'r \<Rightarrow> rview" and dbl :: "int \<Rightarrow> int" +
  fixes manager :: "'c \<Rightarrow> ('r, unit) call"
  assumes codec: "window_to_json E w = Inr t \<Longrightarrow> window_from_json E t = Inr w' \<Longrightarrow> w' = w"
    and xgroup_law: "complies view rlater (xgroup_create (rds E) k g i) sp_stream"
    and manager_law: "complies view rlater (manager c) sp_stream"
begin

lemmas call_leaves =
  leaves_call[OF set_nx_px_law frame_set_nx_px] leaves_call[OF sadd_law frame_sadd]
  leaves_call[OF expire_law frame_expire] leaves_call[OF zrangebyscore_law frame_zrange]
  leaves_call[OF zrangebyscore_i64_law frame_zrange_i64] leaves_call[OF publish_law frame_publish]
  leaves_call[OF incr_law frame_incr] leaves_call[OF setex_law frame_setex]
  leaves_call[OF lpush_law frame_lpush] leaves_call[OF ltrim_law frame_ltrim]
  leaves_call[OF xreadgroup_law frame_stream] leaves_call[OF xack_law frame_stream]
  leaves_call[OF xgroup_law frame_stream] leaves_call[OF manager_law frame_stream]
  leaves_call[OF scan_law frame_scan] leaves_call[OF get_law frame_get]

lemma saved_ok_call:
  "saved_ok E view s \<Longrightarrow> (\<And>k. starts_with ''window:'' k \<Longrightarrow> leaves k (view (redis_st s)) (view r)) \<Longrightarrow>
     saved_ok E view (s\<lparr>redis_st := r\<rparr>)"
  unfolding saved_ok_def by (auto intro: copy_ok_leaves)

lemma copy_ok_set:
  assumes "copy_ok E (cells (view r) k)" and "window_ok u w" and "window_to_json E w = Inr v"
    and "set_px (rds E) (window_key E u) v ttl r = (x, r')"
  shows "copy_ok E (cells (view r') k)"
  using set_px_law assms(4)
proof (cases rule: complies_any)
  case (same V)
  with assms(1) show ?thesis by (auto simp: rlater_def copy_ok_unexpired)
next
  case (effect V y)
  have "window_ok (pt_transaction_id w) w" using assms(2) window_ok_simps(1)[OF assms(2)] by simp
  with codec[OF assms(3)] have "copy_ok E (Some (RStr v, T))" for T by (auto simp: copy_ok_def)
  with effect assms(1) show ?thesis by (auto simp: sp_set_px_def rlater_def copy_ok_unexpired)
qed

lemma copy_ok_del:
  assumes "copy_ok E (cells (view r) k)" and "del (rds E) j r = (x, r')"
  shows "copy_ok E (cells (view r') k)"
  using del_law assms(2)
proof (cases rule: complies_any)
  case (same V)
  with assms(1) show ?thesis by (auto simp: rlater_def copy_ok_unexpired)
next
  case (effect V y)
  with assms(1) show ?thesis by (auto simp: sp_del_def rlater_def copy_ok_unexpired)
qed

lemma step_saved_ok:
  assumes "redis_steps E U X Z (redis_st s) r" and "saved_ok E view s"
  shows "saved_ok E view (s\<lparr>redis_st := r\<rparr>)"
proof -
  have "copy_ok E (cells (view r) k)" if k: "starts_with ''window:'' k" for k
  proof -
    have before: "copy_ok E (cells (view (redis_st s)) k)" using assms(2) k by (simp add: saved_ok_def)
    have other: "k \<noteq> dedup_key E u" "k \<noteq> sources_key E u" "\<not> counter_key k" for u
      using k not_window_keys(1,2)[of E u] not_window_keys(5) by auto
    from assms(1) show ?thesis
    proof (cases rule: redis_steps.cases)
      case st_zset
      have "k \<notin> zset_keys" using k not_window_keys by (auto simp: zset_keys_def)
      from zset_step_leaves[OF st_zset this] before show ?thesis by (rule copy_ok_leaves)
    next
      case st_plain
      then show ?thesis
        by (cases rule: plain_steps.cases)
          (use other in \<open>auto intro: copy_ok_set[OF before] copy_ok_del[OF before] call_leaves[THEN copy_ok_leaves, OF _ _ before]\<close>)
    qed
  qed
  then show ?thesis by (simp add: saved_ok_def)
qed

end

sublocale restartable \<subseteq> copies: task_invariant E cfg U X Z "saved_ok E view" for cfg U X Z
proof
  show "saved_ok E view s \<Longrightarrow> redis_steps E U X Z (redis_st s) r \<Longrightarrow> saved_ok E view (s\<lparr>redis_st := r\<rparr>)"
    for s r by (rule step_saved_ok)
qed simp_all

section \<open>Start-up\<close>

context restartable
begin

abbreviation window_good :: "partial_transaction \<Rightarrow> bool" where
  "window_good w \<equiv> window_ok (pt_transaction_id w) w"

abbreviation inv :: "('r, 'p) world \<Rightarrow> bool" where
  "inv s \<equiv> saved_ok E view s \<and> windows_ok s"

abbreviation safe :: "(('r, 'p) world, 'e, 'x) proc \<Rightarrow> bool" where
  "safe p \<equiv> keeps inv (\<lambda>_. True) p"

text \<open>A Redis call that writes no key.\<close>

lemma quiet_call:
  assumes "complies view rlater f R" and "writes_only {} R"
    and "\<And>V x V'. \<forall>k. starts_with ''window:'' k \<longrightarrow> copy_ok E (cells V k) \<Longrightarrow> R V x V' \<Longrightarrow> Q x"
  shows "keeps inv Q (redis_call f)"
  unfolding redis_call_def
proof (rule keeps_atomic)
  fix s :: "('r, 'p) world" and x s'
  assume s: "inv s" and "(case f (redis_st s) of (x, r) \<Rightarrow> (x, s\<lparr>redis_st := r\<rparr>)) = (x, s')"
  then obtain r where r: "f (redis_st s) = (x, r)" "s' = s\<lparr>redis_st := r\<rparr>" by (auto split: prod.splits)
  have "inv s'"
    using saved_ok_call[OF conjunct1[OF s] leaves_call[OF assms(1,2) r(1)]] s r(2) by (simp add: windows_ok_simps)
  moreover have "Q y" if "x = Inr y" for y
  proof -
    from assms(1) r(1)[unfolded that] obtain V where "rlater (view (redis_st s)) V" "R V y (view r)" by (rule complies_ok)
    then show ?thesis
      using s by (intro assms(3)[of V]) (auto simp: rlater_def saved_ok_def copy_ok_unexpired)
  qed
  ultimately show "inv s' \<and> (\<forall>y. x = Inr y \<longrightarrow> Q y)" by blast
qed

lemma load_keys_good:
  "\<forall>k \<in> set keys. starts_with ''window:'' k \<Longrightarrow> \<forall>w \<in> set acc. window_good w \<Longrightarrow>
     keeps inv (\<lambda>ws. \<forall>w \<in> set ws. window_good w) (load_keys E keys acc)"
proof (induction keys arbitrary: acc)
  case (Cons key keys)
  have read: "keeps inv (\<lambda>x. \<forall>t w. x = Some t \<longrightarrow> window_from_json E t = Inr w \<longrightarrow> window_good w)
      (redis_call (get_str (rds E) key))"
    using Cons.prems(1)
    by (intro quiet_call[OF get_law frame_get]) (auto simp: sp_get_def copy_ok_def split: option.splits rval.splits)
  show ?case
    unfolding load_keys.simps
    by (rule keeps_and_then[OF keeps_attempt[OF read]])
      (use Cons in \<open>auto simp del: keeps.simps split: sum.splits option.splits\<close>)
qed simp

lemma load_all_good:
  "\<forall>w \<in> set acc. window_good w \<Longrightarrow>
     keeps inv (\<lambda>r. \<forall>ws. r = Some ws \<longrightarrow> (\<forall>w \<in> set ws. window_good w)) (load_all_windows fuel E cur acc)"
proof (induction fuel arbitrary: cur acc)
  case (Suc fuel)
  have page: "keeps inv (\<lambda>page. \<forall>k \<in> set (snd page). starts_with ''window:'' k) (rcall (scan (rds E) cur ''window:*'' 100))"
    by (intro keeps_map_err quiet_call[OF scan_law frame_scan]) (simp add: sp_scan_def)
  show ?case
    unfolding load_all_windows.simps
  proof (rule keeps_and_then[OF page])
    fix page :: "u64 \<times> string list"
    obtain next_cursor keys where p: "page = (next_cursor, keys)" by (cases page)
    assume "\<forall>k \<in> set (snd page). starts_with ''window:'' k"
    then have keys: "\<forall>k \<in> set keys. starts_with ''window:'' k" by (simp add: p)
    show "keeps inv (\<lambda>r. \<forall>ws. r = Some ws \<longrightarrow> (\<forall>w \<in> set ws. window_good w))
        (case page of (next_cursor, keys) \<Rightarrow> and_then (load_keys E keys acc)
          (\<lambda>ws. if next_cursor = 0 then ok (Some ws) else load_all_windows fuel E next_cursor ws))"
      unfolding p prod.case
      by (rule keeps_and_then[OF load_keys_good[OF keys Suc.prems]]) (simp add: Suc.IH)
  qed
qed simp

lemma restore_keeps: "safe (restore_from_redis fuel E)"
  unfolding restore_from_redis_def
proof (rule keeps_and_then[OF keeps_map_err[OF load_all_good]])
  fix loaded :: "partial_transaction list option"
  assume "\<forall>ws. loaded = Some ws \<longrightarrow> (\<forall>w \<in> set ws. window_good w)"
  then show "safe (case loaded of None \<Rightarrow> ok None
      | Some ws \<Rightarrow> and_then (for_each ws (\<lambda>w. windows_insert (pt_transaction_id w) w)) (\<lambda>_. ok (Some ())))"
    by (cases loaded)
      (auto intro!: copies.safe_rules(2) keeps_for_each copies.safe_insert[OF UNIV_I])
qed simp

lemma startup_keeps: "safe (startup fuel E loaded pool migrate open_client manager)"
proof -
  have group: "safe (ensure_consumer_group E stream grp)" for stream grp
    unfolding ensure_consumer_group_def
    by (intro copies.safe_rules(2,3) quiet_call[OF xgroup_law frame_stream] TrueI)
      (auto split: sum.split)
  have redis: "safe (connect_redis open_client manager url)" for url
    unfolding connect_redis_def
    by (intro copies.safe_rules quiet_call[OF manager_law frame_stream] TrueI)
  have fresh: "safe new_engine"
    unfolding new_engine_def by (rule keeps_atomic) (auto simp: windows_ok_def)
  show ?thesis
    unfolding startup_def connect_postgres_def
    by (intro copies.safe_rules(1,2,4,6,8) group redis fresh restore_keeps)
qed

lemma worker_keeps: "safe (stream_run n E cfg)" "safe (timer_run n E cfg)"
  unfolding stream_run_def timer_run_def
  by (intro keeps_for_each copies.safe_stream_round[OF refl refl refl] copies.safe_timer_tick[OF refl refl])+

lemma life_keeps: "life E manager s s' \<Longrightarrow> inv s \<Longrightarrow> inv s'"
proof (induction rule: life.induct)
  case (life_starting fuel loaded pool migrate open_client s ps s')
  then show ?case
    using interleave_keeps[OF life_starting(1), of inv "\<lambda>_. True"] startup_keeps by auto
next
  case (life_working fuel loaded pool migrate open_client s cfg s1 n m ps s')
  have "inv s1" using keeps_run[OF startup_keeps life_working(3,1)] by blast
  then show ?case
    using interleave_keeps[OF life_working(2), of inv "\<lambda>_. True"] worker_keeps by auto
qed

lemma lives_keep: "(life E manager)\<^sup>*\<^sup>* s s' \<Longrightarrow> inv s \<Longrightarrow> inv s'"
  by (induction rule: rtranclp_induct) (auto dest: life_keeps)

end

section \<open>Properties\<close>

text \<open>C3. Crashes do no harm to the windows: however often the reconciler is stopped, at whatever step (also
  during start-up), and started again, the windows it has restored or opened are well formed, and so are
  the copies it has saved. JSON is relied on to decode what it encoded.\<close>

theorem restarts_keep_windows:
  assumes "redis_server E view dbl"
    and "\<And>w t w'. window_to_json E w = Inr t \<Longrightarrow> window_from_json E t = Inr w' \<Longrightarrow> w' = w"
    and "\<And>k g i. complies view rlater (xgroup_create (rds E) k g i) sp_stream"
    and "\<And>c. complies view rlater (manager c) sp_stream"
    and "saved_ok E view s" and "windows_ok s" and "(life E manager)\<^sup>*\<^sup>* s s'"
  shows "saved_ok E view s' \<and> windows_ok s'"
proof -
  have "restartable E view dbl manager"
    using assms(1-4) by (auto simp: restartable_def restartable_axioms_def)
  from restartable.lives_keep[OF this assms(7)] assms(5,6) show ?thesis by blast
qed

text \<open>The in-memory services with a codec that knows the window of the first event.\<close>

definition durable_env :: "(mem_redis, pg_tables) env" where
  "durable_env = mem_env\<lparr>
     window_to_json := \<lambda>w. if windows one_event 7 = Some w then Inr ''7'' else Inl ''unknown window'',
     window_from_json := \<lambda>t. case windows one_event 7 of
       Some w \<Rightarrow> if t = ''7'' then Inr w else Inl ''unknown text'' | None \<Rightarrow> Inl ''unknown text''\<rparr>"

lemma durable_env_simps [simp]:
  "rds durable_env = mem_rds" "pgs durable_env = mem_pgs" "uuid_str durable_env = uuid_str mem_env"
  "uuid_parse durable_env = uuid_parse mem_env" "utc_millis durable_env = utc_millis mem_env"
  "window_from_json durable_env ''7'' = Inr (the (windows one_event 7))"
  using one_event_open by (auto simp: durable_env_def)

lemma durable_env_codec:
  "window_to_json durable_env w = Inr t \<Longrightarrow> window_from_json durable_env t = Inr w' \<Longrightarrow> w' = w"
  by (auto simp: durable_env_def split: if_splits option.splits)

lemma durable_env_server: "redis_server durable_env mem_view (\<lambda>i. i)"
  by (rule mem_server) (simp_all add: mem_uuid_round_trip)

lemma mem_group_law: "complies mem_view rlater (mem_xgroup_create k g i) sp_stream"
  by (rule mem_complies)
    (auto simp: mem_xgroup_create_def sp_stream_def mem_view_def mem_lookup_def split: mem_splits)

definition mem_manager :: "string \<Rightarrow> (mem_redis, unit) call" where
  "mem_manager url r = (Inr (), r)"

lemma mem_manager_law: "complies mem_view rlater (mem_manager url) sp_stream"
  by (rule mem_complies) (auto simp: mem_manager_def sp_stream_def)

interpretation mem_durable: restartable durable_env mem_view "\<lambda>i. i" mem_manager
  using durable_env_server durable_env_codec mem_manager_law
  by (auto simp: restartable_def restartable_axioms_def mem_group_law)

definition boot :: "(mem_redis, pg_tables, anyhow, config option) io" where
  "boot = startup 1 durable_env (Inr mem_cfg) (\<lambda>_ _ _ T. (Inr (), T)) (\<lambda>T. (Inr (), T)) Inr mem_manager"

lemmas boot_eval = boot_def startup_def connect_postgres_def connect_redis_def ensure_consumer_group_def
  new_engine_def restore_from_redis_def mem_xgroup_create_def mem_manager_def mem_scan_def glob_def run_simps

definition booted :: "(mem_redis, pg_tables) world" where
  "booted = one_event\<lparr>reads := 5000,
     redis_st := (redis_st one_event)\<lparr>m_groups := [(''transactions:raw'', ''reconciler'')]\<rparr>\<rparr>"

lemma boot_outcome: "run boot (one_event\<lparr>reads := 5000\<rparr>) = (Inr (Some mem_cfg), booted)"
  by (simp add: boot_eval booted_def one_event_eval engine_eval services_eval scenario_eval)

theorem restarts_keep_windows_witness:
  "\<exists>s'. (life durable_env mem_manager)\<^sup>*\<^sup>* (one_event\<lparr>reads := 5000\<rparr>) s'
     \<and> windows s' 7 = windows one_event 7 \<and> saved_ok durable_env mem_view s' \<and> windows_ok s'"
proof -
  let ?s = "one_event\<lparr>reads := 5000\<rparr>"
  have "saved_ok durable_env mem_view ?s" "windows_ok ?s"
    using one_event_ok by (auto simp: saved_ok_def copy_ok_def durable_env_def windows_ok_def window_ok_def split: option.splits)
  moreover have "(life durable_env mem_manager)\<^sup>*\<^sup>* ?s booted"
    using life_working[OF boot_outcome[unfolded boot_def] rtranclp.rtrancl_refl] by (rule r_into_rtranclp)
  ultimately have "saved_ok durable_env mem_view booted \<and> windows_ok booted"
    by (intro restarts_keep_windows[OF durable_env_server durable_env_codec _ mem_manager_law])
      (simp_all add: mem_group_law)
  with \<open>(life durable_env mem_manager)\<^sup>*\<^sup>* ?s booted\<close> show ?thesis
    by (intro exI[of _ booted]) (simp add: booted_def)
qed

text \<open>The timer of the restarted process reads the clock, the due members and removes the one it found.\<close>

definition popped :: "(mem_redis, pg_tables) world" where
  "popped = snd (schedule [1, 1, 1] ([stream_run 1 durable_env mem_cfg, timer_run 1 durable_env mem_cfg], booted))"

lemma popped_eval:
  "popped = booted\<lparr>reads := 5001, redis_st := mem_put deadlines_key None (redis_st booted)\<rparr>"
  by (simp add: popped_def booted_def timer_run_def timer_tick_def process_expired_windows_def expired_windows_def
      pop_expired_deadlines_def rcall_step utc_now_def read_clock_def ignore_def atomic_def one_event_eval
      mem_env_eval services_eval deadlines_key_def)

lemma boot_again: "run boot popped = (Inr (Some mem_cfg), popped)"
  by (simp add: popped_eval boot_eval booted_def one_event_eval engine_eval services_eval scenario_eval)

text \<open>C30. A crash can strand a window: the timer first removes the due deadlines and then handles them, so when
  the process stops in between, the next one restores the saved window without a deadline, and no timer
  will ever close it. From the state after the first event, with its deadline passed, there is such a
  history of two restarts.\<close>

theorem restart_strands_window:
  "\<exists>s'. deadline_of durable_env mem_view (one_event\<lparr>reads := 5000\<rparr>) 7 = Some 3010
     \<and> (life durable_env mem_manager)\<^sup>*\<^sup>* (one_event\<lparr>reads := 5000\<rparr>) s'
     \<and> windows s' 7 = windows one_event 7 \<and> windows s' 7 \<noteq> None
     \<and> deadline_of durable_env mem_view s' 7 = None"
proof -
  let ?s = "one_event\<lparr>reads := 5000\<rparr>"
  let ?workers = "[stream_run 1 durable_env mem_cfg, timer_run 1 durable_env mem_cfg]"
  obtain ps where "interleave\<^sup>*\<^sup>* (?workers, booted) (ps, popped)"
    using schedule_interleave[of "(?workers, booted)" "[1, 1, 1]"]
    unfolding popped_def by (metis prod.collapse)
  then have "life durable_env mem_manager ?s popped" by (rule life_working[OF boot_outcome[unfolded boot_def]])
  moreover have "life durable_env mem_manager popped popped"
    by (rule life_working[OF boot_again[unfolded boot_def] rtranclp.rtrancl_refl])
  ultimately have "(life durable_env mem_manager)\<^sup>*\<^sup>* ?s popped" by simp
  moreover have "deadline_of durable_env mem_view ?s 7 = Some 3010" "deadline_of durable_env mem_view popped 7 = None"
    by (simp_all add: deadline_of_def zmembers_def zset_of_def popped_eval booted_def one_event_eval services_eval deadlines_key_def)
  moreover have "windows popped 7 = windows one_event 7" by (simp add: popped_eval booted_def)
  ultimately show ?thesis using one_event_open by (intro exI[of _ popped]) simp
qed

end
