(* ===== verification/Ingestor.thy ===== *)
theory Ingestor imports Stream_Task Memory_Services
begin

text \<open>
  The producer of the stream, \<open>src/services/ingestor/handler.go\<close>: it validates a posted event, claims the
  request's idempotency key, stores the event and adds it to the stream the reconciler reads. Go's
  strings are their bytes, its \<open>int64\<close> wraps. Like the reconciler it runs over the shared services.
\<close>

section \<open>Requests\<close>

record payment_request =
  rq_event_id :: string
  rq_transaction_id :: string
  rq_source :: string
  rq_amount_minor :: i64
  rq_fee_minor :: i64
  rq_currency :: string
  rq_timestamp_ms :: i64
  rq_tx_type :: string
  rq_merchant_id :: string
  rq_correlation_id :: string

record ingest_message =
  im_event :: payment_request
  im_internal_event_id :: string
  im_correlation_id :: string
  im_ingested_at_ms :: i64

text \<open>A status code with an error code and message, 202 for a queued event, 202 with a stored reply.\<close>

datatype reply =
    Rejected nat string string
  | Accepted string
  | Cached string

text \<open>What the handler calls: go-redis, pgx, the JSON encoders, the hash, the uuid package, the clock. A
  \<open>Get\<close> without value fails, as \<open>redis.Nil\<close>. Expiry times are in hours. \<open>parse_body\<close> is fiber's
  \<open>BodyParser\<close>: it chooses the decoder by the first argument, the request's \<open>Content-Type\<close>.\<close>

record ('r, 'p) ingest_env =
  setnx :: "string \<Rightarrow> string \<Rightarrow> nat \<Rightarrow> ('r, bool) call"
  get_value :: "string \<Rightarrow> ('r, string) call"
  del_key :: "string \<Rightarrow> ('r, unit) call"
  set_value :: "string \<Rightarrow> string \<Rightarrow> nat \<Rightarrow> ('r, unit) call"
  xadd :: "string \<Rightarrow> string \<Rightarrow> string \<Rightarrow> ('r, unit) call"
  insert_event_row :: "string \<Rightarrow> payment_request \<Rightarrow> string \<Rightarrow> string \<Rightarrow> i64 \<Rightarrow> ('p, unit) call"
  parse_body :: "string \<Rightarrow> string \<Rightarrow> string + payment_request"
  request_to_json :: "payment_request \<Rightarrow> string"
  ingest_to_json :: "ingest_message \<Rightarrow> string + string"
  accepted_to_json :: "string \<Rightarrow> string"
  is_json_object :: "string \<Rightarrow> bool"
  sha256_hex :: "string \<Rightarrow> string"
  is_uuid :: "string \<Rightarrow> bool"
  new_uuid :: "nat \<Rightarrow> string"
  unix_millis :: "nat \<Rightarrow> i64"

section \<open>Validation\<close>

text \<open>\<open>validateEvent\<close>: the first check that fails gives the error. \<open>now\<close> is \<open>time.Now().UnixMilli()\<close>.\<close>

definition validate_event :: "('r, 'p) ingest_env \<Rightarrow> i64 \<Rightarrow> payment_request \<Rightarrow> string option" where
  "validate_event E now e =
     (if rq_event_id e = '''' then Some ''event_id is required''
      else if \<not> is_uuid E (rq_event_id e) then Some ''event_id must be valid UUID''
      else if rq_transaction_id e = '''' then Some ''transaction_id is required''
      else if \<not> is_uuid E (rq_transaction_id e) then Some ''transaction_id must be valid UUID''
      else if rq_source e = '''' then Some ''source is required''
      else if rq_source e \<notin> {''merchant'', ''gateway'', ''bank''} then
        Some ''source must be one of: merchant, gateway, bank''
      else if sint (rq_amount_minor e) < 0 then Some ''amount_minor must be >= 0''
      else if sint (rq_fee_minor e) < 0 then Some ''fee_minor must be >= 0''
      else if rq_source e = ''merchant'' \<and> rq_fee_minor e \<noteq> 0 then Some ''merchant fee_minor must be 0''
      else if rq_currency e = '''' then Some ''currency is required''
      else if length (rq_currency e) \<noteq> 3 then Some ''currency must be 3-letter ISO code''
      else if sint (rq_timestamp_ms e) \<le> 0 then Some ''timestamp_ms must be positive''
      else if sint (now + 60000) < sint (rq_timestamp_ms e) then Some ''timestamp_ms is too far in the future''
      else if rq_tx_type e = '''' then Some ''tx_type is required''
      else if rq_tx_type e \<notin> {''card'', ''transfer''} then Some ''tx_type must be one of: card, transfer''
      else None)"

section \<open>The handler\<close>

text \<open>After a failure the idempotency key is given back; whether that works is not looked at.\<close>

definition give_up :: "('r, 'p) ingest_env \<Rightarrow> string \<Rightarrow> string \<Rightarrow> ('r, 'p, unit, reply) io" where
  "give_up E key msg =
     and_then (ignore (redis_call (del_key E key))) (\<lambda>_. ok (Rejected 500 ''internal_error'' msg))"

definition add_payload :: "('r, 'p) ingest_env \<Rightarrow> string \<Rightarrow> string \<Rightarrow> string \<Rightarrow> ('r, 'p, unit, reply) io" where
  "add_payload E key ident payload =
     and_then (attempt (redis_call (xadd E ''transactions:raw'' ''payload'' payload))) (\<lambda>added.
     case added of
       Inl _ \<Rightarrow> give_up E key ''failed to queue event''
     | Inr _ \<Rightarrow>
         and_then (ignore (redis_call (set_value E key (accepted_to_json E ident) 24))) (\<lambda>_.
         ok (Accepted ident)))"

definition queue_event :: "('r, 'p) ingest_env \<Rightarrow> string \<Rightarrow> payment_request \<Rightarrow> ('r, 'p, unit, reply) io" where
  "queue_event E key event =
     (let correlation = rq_transaction_id event in
      and_then (read_clock (new_uuid E)) (\<lambda>ident.
      and_then (read_clock (unix_millis E)) (\<lambda>received_at_ms.
      and_then (attempt (pg_call (insert_event_row E ident event correlation (request_to_json E event)
                 received_at_ms))) (\<lambda>stored.
      case stored of
        Inl _ \<Rightarrow> give_up E key ''failed to persist event''
      | Inr _ \<Rightarrow>
          (case ingest_to_json E \<lparr>im_event = event, im_internal_event_id = ident,
                  im_correlation_id = correlation, im_ingested_at_ms = received_at_ms\<rparr> of
             Inl _ \<Rightarrow> give_up E key ''failed to prepare stream message''
           | Inr payload \<Rightarrow> add_payload E key ident payload)))))"

definition idempotency_key :: "('r, 'p) ingest_env \<Rightarrow> string \<Rightarrow> string \<Rightarrow> string \<Rightarrow> string" where
  "idempotency_key E body api_key header =
     ''idempotency:'' @ api_key @ '':'' @ (if header = '''' then sha256_hex E body else header)"

text \<open>A taken key: in flight, answered before, or (an unreadable value) as if it were free.\<close>

definition claim_request :: "('r, 'p) ingest_env \<Rightarrow> string \<Rightarrow> payment_request \<Rightarrow> ('r, 'p, unit, reply) io" where
  "claim_request E key event =
     and_then (attempt (redis_call (setnx E key ''PROCESSING'' 24))) (\<lambda>claimed.
     case claimed of
       Inl _ \<Rightarrow> ok (Rejected 500 ''internal_error'' ''idempotency check failed'')
     | Inr True \<Rightarrow> queue_event E key event
     | Inr False \<Rightarrow>
         and_then (attempt (redis_call (get_value E key))) (\<lambda>got.
         let val = (case got of Inl _ \<Rightarrow> '''' | Inr v \<Rightarrow> v) in
         if val = ''PROCESSING'' then
           ok (Rejected 409 ''idempotency_in_flight'' ''request with same key is being processed'')
         else if is_json_object E val then ok (Cached val)
         else queue_event E key event))"

definition post_event ::
  "('r, 'p) ingest_env \<Rightarrow> string \<Rightarrow> string \<Rightarrow> string \<Rightarrow> string \<Rightarrow> string \<Rightarrow> ('r, 'p, unit, reply) io" where
  "post_event E source ctype body api_key header =
     (if source = '''' then ok (Rejected 400 ''validation_failed'' ''source is required'')
      else case parse_body E ctype body of
        Inl e \<Rightarrow> ok (Rejected 400 ''validation_failed'' (''invalid JSON: '' @ e))
      | Inr parsed \<Rightarrow>
          let event = parsed\<lparr>rq_source := source\<rparr> in
          and_then (read_clock (unix_millis E)) (\<lambda>now.
          case validate_event E now event of
            Some e \<Rightarrow> ok (Rejected 400 ''validation_failed'' e)
          | None \<Rightarrow> claim_request E (idempotency_key E body api_key header) event))"

section \<open>The server the handler relies on\<close>

text \<open>The observable content for the handler: the keys, and the payloads added to the stream so far.\<close>

type_synonym ingest_view = "rview \<times> string list"

definition ingest_later :: "ingest_view \<Rightarrow> ingest_view \<Rightarrow> bool" where
  "ingest_later X Y \<longleftrightarrow> rlater (fst X) (fst Y) \<and> snd Y = snd X"

definition stored_for :: "nat \<Rightarrow> string \<Rightarrow> string \<Rightarrow> rview \<Rightarrow> rview" where
  "stored_for hours k v V = put_cell k (Some (RStr v, Some (clock V + 3600000 * int hours))) V"

definition queue_of :: "('r \<Rightarrow> ingest_view) \<Rightarrow> ('r, 'p) world \<Rightarrow> string list" where
  "queue_of content s = snd (content (redis_st s))"

text \<open>The handler has queued the event under a fresh id, and says so unless the answer was lost; or it has
  not, and says that it has not.\<close>

definition queued ::
  "('r, 'p) ingest_env \<Rightarrow> ('r \<Rightarrow> ingest_view) \<Rightarrow> payment_request \<Rightarrow> ('r, 'p) world \<Rightarrow> reply \<Rightarrow> ('r, 'p) world \<Rightarrow> bool" where
  "queued E content event s r s' \<longleftrightarrow> (\<exists>ident received_at_ms payload.
     ingest_to_json E \<lparr>im_event = event, im_internal_event_id = ident,
       im_correlation_id = rq_transaction_id event, im_ingested_at_ms = received_at_ms\<rparr> = Inr payload
     \<and> queue_of content s' = queue_of content s @ [payload]
     \<and> (r = Accepted ident \<or> r = Rejected 500 ''internal_error'' ''failed to queue event''))"

definition not_queued :: "('r \<Rightarrow> ingest_view) \<Rightarrow> ('r, 'p) world \<Rightarrow> reply \<Rightarrow> ('r, 'p) world \<Rightarrow> bool" where
  "not_queued content s r s' \<longleftrightarrow> queue_of content s' = queue_of content s \<and> (\<forall>i. r \<noteq> Accepted i)"

locale ingest_server =
  fixes E :: "('r, 'p) ingest_env" and content :: "'r \<Rightarrow> ingest_view"
  assumes setnx_law: "complies content ingest_later (setnx E k v 24) (\<lambda>X x Y. snd Y = snd X \<and>
      x = (cells (fst X) k = None) \<and> fst Y = (if x then stored_for 24 k v (fst X) else fst X))"
    and get_law: "complies content ingest_later (get_value E k) (\<lambda>X x Y. Y = X \<and> (\<exists>t. cells (fst X) k = Some (RStr x, t)))"
    and del_law: "complies content ingest_later (del_key E k) (\<lambda>X x Y. Y = (put_cell k None (fst X), snd X))"
    and set_law: "complies content ingest_later (set_value E k v 24) (\<lambda>X x Y. Y = (stored_for 24 k v (fst X), snd X))"
    and xadd_law: "complies content ingest_later (xadd E ''transactions:raw'' ''payload'' t)
      (\<lambda>X x Y. Y = (fst X, snd X @ [t]))"
begin

abbreviation queue :: "('r, 'p) world \<Rightarrow> string list" where
  "queue s \<equiv> queue_of content s"

lemma stream_frames [simp]:
  "queue (s\<lparr>pg_st := p\<rparr>) = queue s" "queue (s\<lparr>reads := n\<rparr>) = queue s"
  "queue (s\<lparr>redis_st := r\<rparr>) = snd (content r)"
  by (simp_all add: queue_of_def)

lemma same_queue:
  assumes "complies content ingest_later f R" and "f r = (x, r')" and "\<And>X y Y. R X y Y \<Longrightarrow> snd Y = snd X"
  shows "snd (content r') = snd (content r)"
  using assms(1,2) by (cases rule: complies_any) (auto simp: ingest_later_def dest: assms(3))

lemma queue_calls:
  "setnx E k v 24 r = (x1, r') \<Longrightarrow> snd (content r') = snd (content r)"
  "get_value E k r = (x2, r') \<Longrightarrow> snd (content r') = snd (content r)"
  "del_key E k r = (x3, r') \<Longrightarrow> snd (content r') = snd (content r)"
  "set_value E k v 24 r = (x3, r') \<Longrightarrow> snd (content r') = snd (content r)"
  by (rule same_queue[OF setnx_law], assumption, simp)
    (rule same_queue[OF get_law] same_queue[OF del_law] same_queue[OF set_law], assumption, simp)+

lemma xadd_queue:
  assumes "xadd E ''transactions:raw'' ''payload'' t r = (x, r')"
  shows "snd (content r') = snd (content r) @ [t] \<or> snd (content r') = snd (content r) \<and> (\<exists>e. x = Inl e)"
proof (cases x)
  case (Inr u)
  from xadd_law assms[unfolded Inr] obtain X where "ingest_later (content r) X" "content r' = (fst X, snd X @ [t])"
    by (rule complies_ok)
  then show ?thesis by (simp add: ingest_later_def)
next
  case (Inl e)
  from xadd_law assms show ?thesis
    by (cases rule: complies_any) (auto simp: ingest_later_def Inl)
qed

lemma give_up_run: "run (give_up E key msg) s = (x, s') \<Longrightarrow> x = Inr (Rejected 500 ''internal_error'' msg) \<and> queue s' = queue s"
  by (auto simp: give_up_def run_simps queue_of_def split: prod.splits dest: queue_calls(3))

lemma add_payload_run:
  assumes "run (add_payload E key ident payload) s = (x, s')"
  shows "x = Inr (Accepted ident) \<and> queue s' = queue s @ [payload]
    \<or> x = Inr (Rejected 500 ''internal_error'' ''failed to queue event'')
        \<and> (queue s' = queue s @ [payload] \<or> queue s' = queue s)"
proof -
  obtain added r where add: "xadd E ''transactions:raw'' ''payload'' payload (redis_st s) = (added, r)" by fastforce
  note queue_r = xadd_queue[OF add]
  show ?thesis
  proof (cases added)
    case (Inl e)
    with assms add have "run (give_up E key ''failed to queue event'') (s\<lparr>redis_st := r\<rparr>) = (x, s')"
      by (simp add: add_payload_def run_simps)
    from give_up_run[OF this] queue_r show ?thesis by (auto simp: queue_of_def)
  next
    case (Inr v)
    obtain y r' where store: "set_value E key (accepted_to_json E ident) 24 r = (y, r')" by fastforce
    with assms add Inr have "x = Inr (Accepted ident)" "s' = s\<lparr>redis_st := r'\<rparr>"
      by (auto simp: add_payload_def run_simps)
    with queue_r queue_calls(4)[OF store] Inr show ?thesis by (auto simp: queue_of_def)
  qed
qed

lemma queue_event_split:
  assumes "run (queue_event E key event) s = (x, s')"
  obtains (stopped) msg p where "run (give_up E key msg) (s\<lparr>reads := Suc (Suc (reads s)), pg_st := p\<rparr>) = (x, s')"
    | (sent) ident received_at_ms payload p where "ingest_to_json E \<lparr>im_event = event, im_internal_event_id = ident,
          im_correlation_id = rq_transaction_id event, im_ingested_at_ms = received_at_ms\<rparr> = Inr payload"
        "run (add_payload E key ident payload) (s\<lparr>reads := Suc (Suc (reads s)), pg_st := p\<rparr>) = (x, s')"
proof -
  let ?ident = "new_uuid E (reads s)" and ?at = "unix_millis E (Suc (reads s))"
  let ?m = "\<lparr>im_event = event, im_internal_event_id = ?ident, im_correlation_id = rq_transaction_id event,
     im_ingested_at_ms = ?at\<rparr>"
  obtain stored p where ins: "insert_event_row E ?ident event (rq_transaction_id event) (request_to_json E event)
      ?at (pg_st s) = (stored, p)"
    by fastforce
  show thesis
  proof (cases stored)
    case (Inl e)
    with assms ins show thesis
      by (intro stopped[of "''failed to persist event''" p])
        (simp add: queue_event_def Let_def run_and_then run_attempt run_read_clock run_pg_call)
  next
    case stored: (Inr u)
    show thesis
    proof (cases "ingest_to_json E ?m")
      case (Inl e)
      with assms ins stored show thesis
        by (intro stopped[of "''failed to prepare stream message''" p])
          (simp add: queue_event_def Let_def run_and_then run_attempt run_read_clock run_pg_call)
    next
      case (Inr payload)
      with assms ins stored show thesis
        by (intro sent[of ?ident ?at payload p])
          (simp_all add: queue_event_def Let_def run_and_then run_attempt run_read_clock run_pg_call)
    qed
  qed
qed

lemma queue_event_run:
  assumes "run (queue_event E key event) s = (x, s')"
  shows "\<exists>r. x = Inr r \<and> (queued E content event s r s' \<or> not_queued content s r s')"
  using assms
proof (cases rule: queue_event_split)
  case stopped
  from give_up_run[OF this] show ?thesis by (auto simp: not_queued_def)
next
  case sent
  from add_payload_run[OF sent(2)] sent(1) show ?thesis by (auto simp: queued_def not_queued_def)
qed

lemma claim_request_run:
  assumes "run (claim_request E key event) s = (x, s')"
  shows "\<exists>r. x = Inr r \<and> (queued E content event s r s' \<or> not_queued content s r s')"
proof -
  obtain claimed r where claim: "setnx E key ''PROCESSING'' 24 (redis_st s) = (claimed, r)" by fastforce
  obtain got r' where get: "get_value E key r = (got, r')" by fastforce
  have same: "snd (content r) = queue s" "snd (content r') = queue s"
    using queue_calls(1)[OF claim] queue_calls(2)[OF get] by (simp_all add: queue_of_def)
  have shift: "\<exists>r. x = Inr r \<and> (queued E content event s r s' \<or> not_queued content s r s')"
    if "run (queue_event E key event) (s\<lparr>redis_st := q\<rparr>) = (x, s')" and "snd (content q) = queue s" for q
    using queue_event_run[OF that(1)] that(2) by (simp add: queued_def not_queued_def)
  consider (refused) rp q where "x = Inr rp" "s' = s\<lparr>redis_st := q\<rparr>" "snd (content q) = queue s" "\<forall>i. rp \<noteq> Accepted i"
    | (goes_on) q where "run (queue_event E key event) (s\<lparr>redis_st := q\<rparr>) = (x, s')" "snd (content q) = queue s"
    using assms claim get same
    by (auto simp: claim_request_def Let_def run_and_then run_attempt run_redis_call split: sum.splits bool.splits if_splits)
  then show ?thesis
  proof cases
    case refused
    then show ?thesis by (simp add: not_queued_def)
  next
    case goes_on
    then show ?thesis by (rule shift)
  qed
qed

lemma post_event_run:
  assumes "run (post_event E source ctype body api_key header) s = (x, s')"
  shows "\<exists>r. x = Inr r \<and> (not_queued content s r s'
    \<or> (\<exists>parsed now. parse_body E ctype body = Inr parsed \<and> validate_event E now (parsed\<lparr>rq_source := source\<rparr>) = None
         \<and> queued E content (parsed\<lparr>rq_source := source\<rparr>) s r s'))"
proof (cases "source = '''' \<or> (\<forall>parsed. parse_body E ctype body \<noteq> Inr parsed)")
  case True
  with assms show ?thesis
    by (cases "parse_body E ctype body") (auto simp: post_event_def not_queued_def run.simps(1) split: if_splits)
next
  case False
  then obtain parsed where parsed: "parse_body E ctype body = Inr parsed" "source \<noteq> ''''" by auto
  let ?event = "parsed\<lparr>rq_source := source\<rparr>" and ?now = "unix_millis E (reads s)"
  let ?s = "s\<lparr>reads := Suc (reads s)\<rparr>"
  have rest: "run (case validate_event E ?now ?event of
      Some e \<Rightarrow> ok (Rejected 400 ''validation_failed'' e)
    | None \<Rightarrow> claim_request E (idempotency_key E body api_key header) ?event) ?s = (x, s')"
    using assms parsed by (simp add: post_event_def Let_def run_and_then run_read_clock)
  show ?thesis
  proof (cases "validate_event E ?now ?event")
    case None
    with rest have "run (claim_request E (idempotency_key E body api_key header) ?event) ?s = (x, s')" by simp
    from claim_request_run[OF this] parsed(1) None show ?thesis
      by (auto simp: queued_def not_queued_def)
  next
    case (Some e)
    with rest show ?thesis by (auto simp: not_queued_def run.simps(1))
  qed
qed

end

section \<open>Idempotency\<close>

definition day_ms :: int where "day_ms = 86400000"

text \<open>The key of a request that was queued less than a day before \<open>T\<close> holds what the handler puts there.\<close>

definition request_held :: "('r, 'p) ingest_env \<Rightarrow> string \<Rightarrow> int \<Rightarrow> rview \<Rightarrow> bool" where
  "request_held E key T V \<longleftrightarrow> T \<le> clock V + day_ms \<and> (T \<le> clock V
     \<or> (\<exists>v t. cells V key = Some (RStr v, Some t) \<and> T \<le> t \<and> (v = ''PROCESSING'' \<or> (\<exists>i. v = accepted_to_json E i))))"

lemma held_later: "rlater V V' \<Longrightarrow> request_held E key T V \<Longrightarrow> request_held E key T V'"
proof -
  assume "rlater V V'" and held: "request_held E key T V"
  then obtain c where c: "clock V \<le> c" "V' = wait_until c V" by (auto simp: rlater_def)
  show ?thesis
  proof (cases "T \<le> c")
    case True
    with c show ?thesis by (simp add: request_held_def day_ms_def)
  next
    case False
    with held c obtain v t where "cells V key = Some (RStr v, Some t)" "T \<le> t" "v = ''PROCESSING'' \<or> (\<exists>i. v = accepted_to_json E i)"
      by (auto simp: request_held_def)
    with False held c show ?thesis by (auto simp: request_held_def unexpired_def)
  qed
qed

lemma held_absent: "request_held E key T V \<Longrightarrow> cells V key = None \<Longrightarrow> T \<le> clock V"
  by (auto simp: request_held_def)

lemma held_stored:
  "T \<le> clock V + day_ms \<Longrightarrow> v = ''PROCESSING'' \<or> (\<exists>i. v = accepted_to_json E i) \<Longrightarrow>
     request_held E key T (stored_for 24 key v V)"
  by (auto simp: request_held_def stored_for_def day_ms_def)

lemma held_again: "request_held E key T V \<Longrightarrow> request_held E key T (stored_for 24 key (accepted_to_json E i) V)"
  by (rule held_stored) (auto simp: request_held_def)

lemma held_other:
  "k \<noteq> key \<Longrightarrow> request_held E key T (put_cell k c V) = request_held E key T V"
  "k \<noteq> key \<Longrightarrow> request_held E key T (stored_for 24 k v V) = request_held E key T V"
  by (simp_all add: request_held_def stored_for_def)

text \<open>Any requests with other keys, one after the other.\<close>

inductive other_requests :: "('r, 'p) ingest_env \<Rightarrow> string \<Rightarrow> ('r, 'p) world \<Rightarrow> ('r, 'p) world \<Rightarrow> bool"
  for E key s where
  no_request: "other_requests E key s s"
| one_more: "other_requests E key s s' \<Longrightarrow> idempotency_key E body api_key header \<noteq> key \<Longrightarrow>
    run (post_event E source ctype body api_key header) s' = (x, s'') \<Longrightarrow> other_requests E key s s''"

text \<open>The claim finds the key taken, and reading it then fails.\<close>

definition key_read_fails :: "('r, 'p) ingest_env \<Rightarrow> string \<Rightarrow> ('r, 'p) world \<Rightarrow> bool" where
  "key_read_fails E key s \<longleftrightarrow> (\<exists>r e r'. setnx E key ''PROCESSING'' 24 (redis_st s) = (Inr False, r)
     \<and> get_value E key r = (Inl e, r'))"

context ingest_server
begin

abbreviation time :: "('r, 'p) world \<Rightarrow> int" where
  "time s \<equiv> clock (fst (content (redis_st s)))"

abbreviation held :: "string \<Rightarrow> int \<Rightarrow> ('r, 'p) world \<Rightarrow> bool" where
  "held key T s \<equiv> request_held E key T (fst (content (redis_st s)))"

lemma call_keeps_held:
  assumes "complies content ingest_later f R" and "f r = (x, r')" and "request_held E key T (fst (content r))"
    and "\<And>X y Y. request_held E key T (fst X) \<Longrightarrow> R X y Y \<Longrightarrow> request_held E key T (fst Y)"
  shows "request_held E key T (fst (content r'))"
  using assms(1,2)
proof (cases rule: complies_any)
  case (same X)
  from same(1) have "rlater (fst (content r)) (fst X)" by (simp add: ingest_later_def)
  from held_later[OF this assms(3)] show ?thesis by (simp only: same(2))
next
  case (effect X y)
  from effect(1) have "rlater (fst (content r)) (fst X)" by (simp add: ingest_later_def)
  from assms(4)[OF held_later[OF this assms(3)] effect(2)] show ?thesis .
qed

lemma clock_stored [simp]: "clock (stored_for h k v V) = clock V"
  by (simp add: stored_for_def)

lemma call_clock:
  assumes "complies content ingest_later f R" and "f r = (x, r')" and "\<And>X y Y. R X y Y \<Longrightarrow> clock (fst Y) = clock (fst X)"
  shows "clock (fst (content r)) \<le> clock (fst (content r'))"
  using assms(1,2) by (cases rule: complies_any) (auto simp: ingest_later_def rlater_def dest: assms(3))

lemma clock_calls:
  "setnx E k v 24 r = (x1, r') \<Longrightarrow> clock (fst (content r)) \<le> clock (fst (content r'))"
  "get_value E k r = (x2, r') \<Longrightarrow> clock (fst (content r)) \<le> clock (fst (content r'))"
  "del_key E k r = (x3, r') \<Longrightarrow> clock (fst (content r)) \<le> clock (fst (content r'))"
  "set_value E k v 24 r = (x3, r') \<Longrightarrow> clock (fst (content r)) \<le> clock (fst (content r'))"
  "xadd E ''transactions:raw'' ''payload'' v r = (x3, r') \<Longrightarrow> clock (fst (content r)) \<le> clock (fst (content r'))"
  by (rule call_clock[OF setnx_law] call_clock[OF get_law] call_clock[OF del_law] call_clock[OF set_law]
      call_clock[OF xadd_law], assumption, simp)+

lemmas clock_mono = order_trans[OF _ clock_calls(1)] order_trans[OF _ clock_calls(2)] order_trans[OF _ clock_calls(3)]
  order_trans[OF _ clock_calls(4)] order_trans[OF _ clock_calls(5)]

lemma queue_event_clock: "keeps (\<lambda>s. T \<le> time s) (\<lambda>_. True) (queue_event E key event)"
proof -
  have "keeps (\<lambda>s. T \<le> time s) (\<lambda>_. True) (give_up E key m)" for m
    unfolding give_up_def
    by (intro keeps_and_then[where Q = "\<lambda>_. True"] keeps_ignore[where Q = "\<lambda>_. True"] keeps_redis_call)
      (auto intro: clock_mono)
  moreover have "keeps (\<lambda>s. T \<le> time s) (\<lambda>_. True) (add_payload E key ident v)" for ident v
  proof -
    have "keeps (\<lambda>s. T \<le> time s) (\<lambda>_. True) (ignore (redis_call (set_value E key v 24)) :: ('r, 'p, unit, unit) io)" for v
      by (intro keeps_ignore[where Q = "\<lambda>_. True"] keeps_redis_call) (simp add: clock_mono(4))
    with calculation show ?thesis
      unfolding add_payload_def
      by (intro keeps_and_then[where Q = "\<lambda>_. True"] keeps_weaken[OF keeps_attempt[OF keeps_redis_call]])
        (auto split: sum.split intro: clock_mono(5) intro!: keeps_and_then[where Q = "\<lambda>_. True"])
  qed
  ultimately show ?thesis
    unfolding queue_event_def Let_def
    by (intro keeps_and_then[where Q = "\<lambda>_. True"] keeps_weaken[OF keeps_attempt[OF keeps_pg_call]] keeps_read_clock)
      (auto split: sum.split intro!: keeps_and_then[where Q = "\<lambda>_. True"])
qed

lemma add_payload_held:
  assumes "held key T s" and "run (add_payload E key ident payload) s = (Inr (Accepted i), s')"
  shows "held key T s'"
proof -
  obtain added r where add: "xadd E ''transactions:raw'' ''payload'' payload (redis_st s) = (added, r)" by fastforce
  obtain y r' where store: "set_value E key (accepted_to_json E ident) 24 r = (y, r')" by fastforce
  from add store assms(2) have s': "s' = s\<lparr>redis_st := r'\<rparr>"
    by (auto simp: add_payload_def run_simps split: sum.splits dest: give_up_run)
  have "request_held E key T (fst (content r))"
    by (rule call_keeps_held[OF xadd_law add assms(1)]) simp
  from call_keeps_held[OF set_law store this] have "request_held E key T (fst (content r'))"
    by (simp add: held_again)
  then show ?thesis by (simp add: s')
qed

lemma claim_request_held:
  assumes "cells (fst (content (redis_st s))) key = None" and "run (claim_request E key event) s = (Inr (Accepted i), s')"
  shows "held key (time s + day_ms) s'"
proof -
  obtain claimed r where claim: "setnx E key ''PROCESSING'' 24 (redis_st s) = (claimed, r)" by fastforce
  from assms(2) claim obtain b where b: "claimed = Inr b"
    by (auto simp: claim_request_def run_simps split: sum.splits)
  from setnx_law claim[unfolded b] obtain X where X: "ingest_later (content (redis_st s)) X"
    "b = (cells (fst X) key = None)" "fst (content r) = (if b then stored_for 24 key ''PROCESSING'' (fst X) else fst X)"
    by (rule complies_ok) blast
  have later: "time s \<le> clock (fst X)" "cells (fst X) key = None"
    using X(1) assms(1) by (auto simp: ingest_later_def rlater_def)
  then have "held key (time s + day_ms) (s\<lparr>redis_st := r\<rparr>)"
    using X(2,3) by (simp add: held_stored)
  moreover have "run (queue_event E key event) (s\<lparr>redis_st := r\<rparr>) = (Inr (Accepted i), s')"
    using assms(2) claim b X(2) later(2) by (simp add: claim_request_def run_simps)
  ultimately show ?thesis
  proof -
    assume held: "held key (time s + day_ms) (s\<lparr>redis_st := r\<rparr>)"
    assume "run (queue_event E key event) (s\<lparr>redis_st := r\<rparr>) = (Inr (Accepted i), s')"
    then show ?thesis
    proof (cases rule: queue_event_split)
      case stopped
      from give_up_run[OF this] show ?thesis by simp
    next
      case sent
      from add_payload_held[OF _ sent(2)] held show ?thesis by simp
    qed
  qed
qed

text \<open>Requests with other keys leave it alone.\<close>

lemma other_calls_held:
  assumes "k \<noteq> key" and "request_held E key T (fst (content r))"
  shows "setnx E k v 24 r = (x1, r') \<Longrightarrow> request_held E key T (fst (content r'))"
    and "get_value E k r = (x2, r') \<Longrightarrow> request_held E key T (fst (content r'))"
    and "del_key E k r = (x3, r') \<Longrightarrow> request_held E key T (fst (content r'))"
    and "set_value E k v 24 r = (x3, r') \<Longrightarrow> request_held E key T (fst (content r'))"
    and "xadd E ''transactions:raw'' ''payload'' v r = (x3, r') \<Longrightarrow> request_held E key T (fst (content r'))"
  using assms
  by (auto simp: held_other elim!: call_keeps_held[OF setnx_law] call_keeps_held[OF get_law]
      call_keeps_held[OF del_law] call_keeps_held[OF set_law] call_keeps_held[OF xadd_law])

lemma queue_event_held:
  assumes "k \<noteq> key"
  shows "keeps (held key T) (\<lambda>_. True) (queue_event E k event)"
proof -
  have "keeps (held key T) (\<lambda>_. True) (give_up E k m)" for m
    unfolding give_up_def
    by (intro keeps_and_then[where Q = "\<lambda>_. True"] keeps_ignore[where Q = "\<lambda>_. True"] keeps_redis_call)
      (auto intro: other_calls_held(3)[OF assms])
  moreover have "keeps (held key T) (\<lambda>_. True) (add_payload E k ident v)" for ident v
  proof -
    have "keeps (held key T) (\<lambda>_. True) (ignore (redis_call (set_value E k v 24)) :: ('r, 'p, unit, unit) io)" for v
      by (intro keeps_ignore[where Q = "\<lambda>_. True"] keeps_redis_call) (auto intro: other_calls_held(4)[OF assms])
    with calculation show ?thesis
      unfolding add_payload_def
      by (intro keeps_and_then[where Q = "\<lambda>_. True"] keeps_weaken[OF keeps_attempt[OF keeps_redis_call]])
        (auto split: sum.split intro: other_calls_held(5)[OF assms] intro!: keeps_and_then[where Q = "\<lambda>_. True"])
  qed
  ultimately show ?thesis
    unfolding queue_event_def Let_def
    by (intro keeps_and_then[where Q = "\<lambda>_. True"] keeps_weaken[OF keeps_attempt[OF keeps_pg_call]] keeps_read_clock)
      (auto split: sum.split intro!: keeps_and_then[where Q = "\<lambda>_. True"])
qed

lemma other_request_held:
  assumes "idempotency_key E body api_key header \<noteq> key"
  shows "keeps (held key T) (\<lambda>_. True) (post_event E source ctype body api_key header)"
proof -
  have "keeps (held key T) (\<lambda>_. True) (claim_request E k event)" if "k \<noteq> key" for k event
    unfolding claim_request_def Let_def
    by (intro keeps_and_then[where Q = "\<lambda>_. True"] keeps_weaken[OF keeps_attempt[OF keeps_redis_call]])
      (auto split: sum.split bool.split intro: other_calls_held(1,2)[OF that] queue_event_held[OF that]
        intro!: keeps_and_then[where Q = "\<lambda>_. True"] keeps_weaken[OF keeps_attempt[OF keeps_redis_call]])
  from this[OF assms] show ?thesis
    unfolding post_event_def Let_def
    by (auto split: sum.split option.split intro!: keeps_and_then[where Q = "\<lambda>_. True"] keeps_read_clock)
qed

lemma other_requests_held: "other_requests E key s s' \<Longrightarrow> held key T s \<Longrightarrow> held key T s'"
  by (induction rule: other_requests.induct) (auto dest: keeps_run[OF other_request_held])

text \<open>What is read from a key that is still held is answered from it.\<close>

lemma held_value:
  assumes "request_held E key T (fst (content r))" and get: "get_value E key r = (Inr u, r')"
    and "\<And>i. is_json_object E (accepted_to_json E i)" and "clock (fst (content r')) < T"
  shows "u = ''PROCESSING'' \<or> is_json_object E u"
proof -
  have "request_held E key T (fst (content r'))"
    by (rule call_keeps_held[OF get_law get assms(1)]) simp
  with assms(4) obtain v t where cell: "cells (fst (content r')) key = Some (RStr v, Some t)"
    "v = ''PROCESSING'' \<or> (\<exists>i. v = accepted_to_json E i)"
    by (auto simp: request_held_def)
  from get_law get have "\<exists>t. cells (fst (content r')) key = Some (RStr u, t)"
    by (rule complies_ok) auto
  with cell assms(3) show ?thesis by auto
qed

lemma claim_request_again:
  assumes held: "held key T s"
    and json: "\<And>i. is_json_object E (accepted_to_json E i)"
    and run: "run (claim_request E key event) s = (x, s')"
  shows "queue s' = queue s \<or> T \<le> time s' \<or> key_read_fails E key s"
proof -
  obtain claimed r where claim: "setnx E key ''PROCESSING'' 24 (redis_st s) = (claimed, r)" by fastforce
  obtain val r' where get: "get_value E key r = (val, r')" by fastforce
  have late: ?thesis if "run (queue_event E key event) (s\<lparr>redis_st := q\<rparr>) = (x, s')" and "T \<le> clock (fst (content q))" for q
    using keeps_run[OF queue_event_clock[of T] _ that(1)] that(2) by simp
  show ?thesis
  proof (cases claimed)
    case (Inl e)
    with run claim queue_calls(1)[OF claim] show ?thesis
      by (auto simp: claim_request_def run_simps queue_of_def)
  next
    case (Inr b)
    from setnx_law claim[unfolded Inr] obtain X where X: "ingest_later (content (redis_st s)) X"
      "b = (cells (fst X) key = None)" "fst (content r) = (if b then stored_for 24 key ''PROCESSING'' (fst X) else fst X)"
      by (rule complies_ok) blast
    have heldX: "request_held E key T (fst X)"
      using held_later[OF _ held] X(1) by (simp add: ingest_later_def)
    show ?thesis
    proof (cases b)
      case True
      with X(2) held_absent[OF heldX] have "T \<le> clock (fst X)" by simp
      with True X(3) run claim Inr show ?thesis
        by (intro late[of r]) (simp_all add: claim_request_def run_simps)
    next
      case False
      with X(3) heldX have heldr: "request_held E key T (fst (content r))" by simp
      have rest: "run (let v = (case val of Inl _ \<Rightarrow> [] | Inr v \<Rightarrow> v) in
           if v = ''PROCESSING'' then ok (Rejected 409 ''idempotency_in_flight'' ''request with same key is being processed'')
           else if is_json_object E v then ok (Cached v) else queue_event E key event) (s\<lparr>redis_st := r'\<rparr>) = (x, s')"
        using run claim Inr False get by (simp add: claim_request_def run_simps)
      show ?thesis
      proof (cases "T \<le> clock (fst (content r'))")
        case True
        with rest late[of r'] show ?thesis by (auto simp: Let_def run.simps(1) split: if_splits)
      next
        case in_time: False
        show ?thesis
        proof (cases val)
          case failed: (Inl e)
          with claim get Inr False show ?thesis by (auto simp: key_read_fails_def)
        next
          case read: (Inr u)
          from in_time have "clock (fst (content r')) < T" by simp
          from held_value[OF heldr get[unfolded read] json this] rest read queue_calls(1)[OF claim] queue_calls(2)[OF get]
          show ?thesis by (auto simp: Let_def run.simps(1) queue_of_def split: if_splits)
        qed
      qed
    qed
  qed
qed

lemma post_event_valid:
  assumes "parse_body E ctype body = Inr parsed" and "run (post_event E source ctype body api_key header) s = (Inr (Accepted i), s')"
  shows "run (claim_request E (idempotency_key E body api_key header) (parsed\<lparr>rq_source := source\<rparr>))
    (s\<lparr>reads := Suc (reads s)\<rparr>) = (Inr (Accepted i), s')"
  using assms by (auto simp: post_event_def Let_def run_and_then run_read_clock run.simps(1) split: if_splits option.splits)

lemma request_twice:
  assumes json: "\<And>i. is_json_object E (accepted_to_json E i)"
    and same: "idempotency_key E body' api_key' header' = idempotency_key E body api_key header"
    and free: "cells (fst (content (redis_st s))) (idempotency_key E body api_key header) = None"
    and first: "run (post_event E source ctype body api_key header) s = (Inr (Accepted i), s1)"
    and others: "other_requests E (idempotency_key E body api_key header) s1 s2"
    and again: "run (post_event E source' ctype' body' api_key' header') s2 = (x, s3)"
  shows "queue s3 = queue s2 \<or> time s + day_ms \<le> time s3
    \<or> key_read_fails E (idempotency_key E body api_key header) s2"
proof -
  let ?key = "idempotency_key E body api_key header"
  from first obtain parsed where parsed: "parse_body E ctype body = Inr parsed"
    by (cases "parse_body E ctype body") (auto simp: post_event_def run.simps(1) split: if_splits)
  have "held ?key (time s + day_ms) s1"
    using claim_request_held[OF _ post_event_valid[OF parsed first]] free by simp
  from other_requests_held[OF others this]
  have held: "held ?key (time s + day_ms) (s2\<lparr>reads := Suc (reads s2)\<rparr>)" by simp
  from again show ?thesis
    using claim_request_again[OF held json]
    by (auto simp: post_event_def same Let_def run_and_then run_read_clock run.simps(1) queue_of_def key_read_fails_def
        split: if_splits option.splits sum.splits)
qed

end

end
