(* ===== verification/Ingested.thy ===== *)
theory Ingested imports Ingestor
begin

text \<open>
  The ingestor and the reconciler together: what the handler adds to the stream, and what its validation
  means for the reconciler's comparison. The handler's services in memory meet the contract
  \<open>ingest_server\<close>.
\<close>

section \<open>What the reconciler reads\<close>

text \<open>The JSON numbers of a queued event keep their values, which the encoders document. Nothing is asked of
  the strings: Go's encoder replaces invalid UTF-8 in them.\<close>

definition represents :: "payment_request \<Rightarrow> payment_event \<Rightarrow> bool" where
  "represents rq e \<longleftrightarrow> amount_minor e = rq_amount_minor rq \<and> fee_minor e = rq_fee_minor rq"

definition queued_entry :: "('a, 'b) ingest_env \<Rightarrow> ('r, 'p) env \<Rightarrow> payment_event \<Rightarrow> bool" where
  "queued_entry I E e \<longleftrightarrow> (\<exists>m now payload entry msg. validate_event I now (im_event m) = None
     \<and> ingest_to_json I m = Inr payload \<and> entry_map entry ''payload'' = Some (Data payload)
     \<and> entry_message E entry = Some msg \<and> e = sm_event msg)"

lemma valid_amounts:
  "validate_event E now rq = None \<Longrightarrow> 0 \<le> sint (rq_amount_minor rq) \<and> 0 \<le> sint (rq_fee_minor rq)
     \<and> (rq_source rq = ''merchant'' \<longrightarrow> rq_fee_minor rq = 0) \<and> length (rq_currency rq) = 3
     \<and> rq_tx_type rq \<in> {''card'', ''transfer''}"
  by (simp add: validate_event_def split: if_splits)

lemma queued_entry_amounts:
  assumes "\<And>m payload msg. ingest_to_json I m = Inr payload \<Longrightarrow>
      message_from_json E (from_utf8_lossy payload) = Inr msg \<Longrightarrow> represents (im_event m) (sm_event msg)"
    and "queued_entry I E e"
  shows "0 \<le> sint (amount_minor e) \<and> 0 \<le> sint (fee_minor e)"
proof -
  from assms(2) obtain m now payload msg where m: "validate_event I now (im_event m) = None"
    "ingest_to_json I m = Inr payload" "message_from_json E (from_utf8_lossy payload) = Inr msg" "e = sm_event msg"
    by (auto simp: queued_entry_def entry_message_def split: sum.splits)
  from assms(1)[OF m(2,3)] valid_amounts[OF m(1)] m(4) show ?thesis by (simp add: represents_def)
qed

section \<open>In memory\<close>

text \<open>The handler's services in memory: an added payload becomes an entry of the stream the reconciler reads.
  The codec knows one event per source.\<close>

definition mem_payloads :: "mem_redis \<Rightarrow> string list" where
  "mem_payloads r = (case map_of (m_new r) ''transactions:raw'' of None \<Rightarrow> []
     | Some es \<Rightarrow> map (\<lambda>e. case entry_map e ''payload'' of Some (Data t) \<Rightarrow> t | _ \<Rightarrow> '''') es)"

definition mem_content :: "mem_redis \<Rightarrow> ingest_view" where
  "mem_content r = (mem_view r, mem_payloads r)"

definition mem_setnx :: "string \<Rightarrow> string \<Rightarrow> nat \<Rightarrow> (mem_redis, bool) call" where
  "mem_setnx k v h r = (case mem_lookup k r of
     None \<Rightarrow> (Inr True, mem_set k v (3600000 * int h) r) | Some _ \<Rightarrow> (Inr False, r))"

definition mem_get_value :: "string \<Rightarrow> (mem_redis, string) call" where
  "mem_get_value k r = (case mem_lookup k r of
     None \<Rightarrow> (Inl ''redis: nil'', r) | Some (CStr s, _) \<Rightarrow> (Inr s, r) | _ \<Rightarrow> (Inl wrong_type, r))"

definition mem_xadd :: "string \<Rightarrow> string \<Rightarrow> string \<Rightarrow> (mem_redis, unit) call" where
  "mem_xadd stream field v r =
     (let es = (case map_of (m_new r) stream of None \<Rightarrow> [] | Some es \<Rightarrow> es);
          e = \<lparr>entry_id = show_nat (length es), entry_map = [field \<mapsto> Data v]\<rparr>
      in (Inr (), r\<lparr>m_new := AList.update stream (es @ [e]) (m_new r)\<rparr>))"

definition request_of :: "payment_event \<Rightarrow> payment_request" where
  "request_of e = \<lparr>rq_event_id = show_nat (unat (event_id e)), rq_transaction_id = show_nat (unat (pe_transaction_id e)),
     rq_source = source_name (pe_source e), rq_amount_minor = amount_minor e, rq_fee_minor = fee_minor e,
     rq_currency = pe_currency e, rq_timestamp_ms = timestamp_ms e, rq_tx_type = pe_tx_type e,
     rq_merchant_id = '''', rq_correlation_id = ''''\<rparr>"

definition sample_messages :: "(string \<times> stream_message) list" where
  "sample_messages = [(''merchant'', mem_message 1 Merchant 100 0), (''gateway'', mem_message 2 Gateway 100 10),
     (''bank'', mem_message 3 Bank 90 0)]"

definition mem_ingest :: "(mem_redis, pg_tables) ingest_env" where
  "mem_ingest =
     \<lparr>setnx = mem_setnx, get_value = mem_get_value, del_key = mem_del,
      set_value = (\<lambda>k v h r. (Inr (), mem_set k v (3600000 * int h) r)), xadd = mem_xadd,
      insert_event_row = (\<lambda>_ _ _ _ _ T. (Inr (), T)),
      parse_body = (\<lambda>_ t. case map_of sample_messages t of None \<Rightarrow> Inl ''EOF'' | Some m \<Rightarrow> Inr (request_of (sm_event m))),
      request_to_json = rq_source,
      ingest_to_json = (\<lambda>m. if \<exists>x \<in> set sample_messages. im_event m = request_of (sm_event (snd x))
        then Inr (rq_source (im_event m)) else Inl ''unknown event''),
      accepted_to_json = (\<lambda>i. CHR ''{'' # i), is_json_object = starts_with ''{'', sha256_hex = (\<lambda>t. t),
      is_uuid = (\<lambda>t. parse_nat t \<noteq> None), new_uuid = show_nat, unix_millis = (\<lambda>n. 1735689600000 + of_nat n)\<rparr>"

lemma mem_ingest_simps [simp]:
  "setnx mem_ingest = mem_setnx" "get_value mem_ingest = mem_get_value" "del_key mem_ingest = mem_del"
  "set_value mem_ingest k v h r = (Inr (), mem_set k v (3600000 * int h) r)" "xadd mem_ingest = mem_xadd"
  "insert_event_row mem_ingest a b c d e T = (Inr (), T)" "accepted_to_json mem_ingest t = CHR ''{'' # t"
  "is_json_object mem_ingest = starts_with ''{''" "sha256_hex mem_ingest t = t"
  "is_uuid mem_ingest t = (parse_nat t \<noteq> None)" "new_uuid mem_ingest = show_nat"
  "unix_millis mem_ingest n = 1735689600000 + of_nat n"
  by (simp_all add: mem_ingest_def)

definition mem_reader :: "(mem_redis, pg_tables) env" where
  "mem_reader = mem_env\<lparr>message_from_json := (\<lambda>t. case map_of sample_messages t of None \<Rightarrow> Inl ''EOF'' | Some m \<Rightarrow> Inr m)\<rparr>"

lemma mem_ingest_complies:
  assumes "\<And>r x r'. f r = (Inr x, r') \<Longrightarrow> R (mem_content r) x (mem_content r')"
    and "\<And>r e r'. f r = (Inl e, r') \<Longrightarrow> r' = r"
  shows "complies mem_content ingest_later f R"
  unfolding complies_def
proof
  fix r
  have "case f r of (Inr x, r') \<Rightarrow> R (mem_content r) x (mem_content r')
      | (Inl e, r') \<Rightarrow> mem_content r' = mem_content r \<or> (\<exists>x. R (mem_content r) x (mem_content r'))"
  proof (cases "f r")
    case (Pair y r')
    with assms[of r] show ?thesis by (cases y) simp_all
  qed
  then show "\<exists>V. ingest_later (mem_content r) V \<and> (case f r of (Inr x, r') \<Rightarrow> R V x (mem_content r')
      | (Inl e, r') \<Rightarrow> mem_content r' = V \<or> (\<exists>x. R V x (mem_content r')))"
    by (intro exI[of _ "mem_content r"] conjI) (simp_all add: ingest_later_def mem_content_def mem_rlater)
qed

lemma mem_payloads_put [simp]: "mem_payloads (mem_put k e r) = mem_payloads r"
  by (simp add: mem_payloads_def mem_put_def)

interpretation mem_ingest: ingest_server mem_ingest mem_content
proof
  show "complies mem_content ingest_later (setnx mem_ingest k v 24) (\<lambda>X x Y. snd Y = snd X \<and>
      x = (cells (fst X) k = None) \<and> fst Y = (if x then stored_for 24 k v (fst X) else fst X))" for k v
    by (rule mem_ingest_complies)
      (auto simp: mem_ingest_def mem_setnx_def mem_content_def mem_set_def mem_view_put stored_for_def split: mem_splits)
  show "complies mem_content ingest_later (get_value mem_ingest k)
      (\<lambda>X x Y. Y = X \<and> (\<exists>t. cells (fst X) k = Some (RStr x, t)))" for k
    by (rule mem_ingest_complies)
      (auto simp: mem_ingest_def mem_get_value_def mem_content_def split: mem_splits)
  show "complies mem_content ingest_later (del_key mem_ingest k) (\<lambda>X x Y. Y = (put_cell k None (fst X), snd X))" for k
    by (rule mem_ingest_complies) (auto simp: mem_ingest_def mem_del_def mem_content_def mem_view_put)
  show "complies mem_content ingest_later (set_value mem_ingest k v 24)
      (\<lambda>X x Y. Y = (stored_for 24 k v (fst X), snd X))" for k v
    by (rule mem_ingest_complies)
      (auto simp: mem_ingest_def mem_set_def mem_content_def mem_view_put stored_for_def)
  show "complies mem_content ingest_later (xadd mem_ingest ''transactions:raw'' ''payload'' t)
      (\<lambda>X x Y. Y = (fst X, snd X @ [t]))" for t
    by (rule mem_ingest_complies)
      (auto simp: mem_ingest_def mem_xadd_def mem_content_def mem_payloads_def mem_view_def mem_lookup_def Let_def
        update_conv' split: option.split)
qed

text \<open>One posted event, and the same request again.\<close>

definition posted :: "(unit + reply) \<times> (mem_redis, pg_tables) world" where
  "posted = run (post_event mem_ingest ''merchant'' ''application/json'' ''merchant'' ''k'' '''') mem_start"

definition posted_again :: "(unit + reply) \<times> (mem_redis, pg_tables) world" where
  "posted_again = run (post_event mem_ingest ''merchant'' ''application/json'' ''merchant'' ''k'' '''') (snd posted)"

lemmas post_eval = post_event_def claim_request_def queue_event_def add_payload_def give_up_def idempotency_key_def
  Let_def run_simps mem_setnx_def mem_get_value_def mem_xadd_def mem_content_def mem_payloads_def mem_start_def
  mem_set_def mem_put_def mem_lookup_def alive_def show_nat_eval digit_chars

lemma shown_uuid: "show_nat n \<noteq> [] \<and> parse_nat (show_nat n) \<noteq> None"
  by (simp add: parse_show_nat)

lemma posted_request:
  "parse_body mem_ingest ctype ''merchant'' = Inr (request_of (sm_event (mem_message 1 Merchant 100 0)))"
  "(request_of (sm_event (mem_message 1 Merchant 100 0)))\<lparr>rq_source := ''merchant''\<rparr>
     = request_of (sm_event (mem_message 1 Merchant 100 0))"
  by (simp_all add: mem_ingest_def sample_messages_def request_of_def mem_message_def sample_event_def)

lemma posted_valid:
  "1735689600000 \<le> sint (now + 60000) \<Longrightarrow>
     validate_event mem_ingest now (request_of (sm_event (mem_message 1 Merchant 100 0))) = None"
  "ingest_to_json mem_ingest \<lparr>im_event = request_of (sm_event (mem_message 1 Merchant 100 0)),
     im_internal_event_id = a, im_correlation_id = c, im_ingested_at_ms = d\<rparr> = Inr ''merchant''"
proof -
  show "1735689600000 \<le> sint (now + 60000) \<Longrightarrow>
     validate_event mem_ingest now (request_of (sm_event (mem_message 1 Merchant 100 0))) = None"
    by (simp add: validate_event_def request_of_def mem_message_def sample_event_def shown_uuid)
qed (simp add: mem_ingest_def request_of_def sample_messages_def mem_message_def sample_event_def)

lemma posted_eval:
  "posted = (Inr (Accepted ''11''), mem_start\<lparr>reads := 13, redis_st := (redis_st mem_start)\<lparr>
     m_cells := [(''idempotency:k:merchant'', CStr ''{11'', Some 86400000)],
     m_new := [(''transactions:raw'', [\<lparr>entry_id = ''0'', entry_map = [''payload'' \<mapsto> Data ''merchant'']\<rparr>])]\<rparr>\<rparr>)"
  by (simp add: posted_def post_eval posted_request posted_valid)

lemma posted_again_eval: "posted_again = (Inr (Cached ''{11''), (snd posted)\<lparr>reads := 14\<rparr>)"
  by (simp add: posted_again_def posted_eval post_eval posted_request posted_valid)

lemma unused_key: "cells (fst (mem_content (redis_st mem_start))) (idempotency_key E body api_key header) = None"
  by (simp add: mem_content_def mem_view_def mem_lookup_def mem_start_def cell_view_def)

text \<open>The same services with a connection on which reading a key times out.\<close>

definition failing_get :: "(mem_redis, pg_tables) ingest_env" where
  "failing_get = mem_ingest\<lparr>get_value := (\<lambda>k r. (Inl ''i/o timeout'', r))\<rparr>"

interpretation failing_get: ingest_server failing_get mem_content
proof -
  have "complies mem_content ingest_later (get_value failing_get k)
      (\<lambda>X x Y. Y = X \<and> (\<exists>t. cells (fst X) k = Some (RStr x, t)))" for k
    by (rule mem_ingest_complies) (simp_all add: failing_get_def)
  then show "ingest_server failing_get mem_content"
    using mem_ingest.ingest_server_axioms by (simp add: ingest_server_def failing_get_def)
qed

definition queued_again :: "(unit + reply) \<times> (mem_redis, pg_tables) world" where
  "queued_again = run (post_event failing_get ''merchant'' ''application/json'' ''merchant'' ''k'' '''') (snd posted)"

lemma failing_simps:
  "parse_body failing_get = parse_body mem_ingest" "is_uuid failing_get = is_uuid mem_ingest"
  "ingest_to_json failing_get = ingest_to_json mem_ingest" "setnx failing_get = mem_setnx"
  "get_value failing_get k r = (Inl ''i/o timeout'', r)" "xadd failing_get = mem_xadd"
  "set_value failing_get k v h r = (Inr (), mem_set k v (3600000 * int h) r)"
  "insert_event_row failing_get a b c d e T = (Inr (), T)" "accepted_to_json failing_get t = CHR ''{'' # t"
  "is_json_object failing_get = starts_with ''{''" "sha256_hex failing_get t = t" "new_uuid failing_get = show_nat"
  "unix_millis failing_get n = 1735689600000 + of_nat n"
  by (simp_all add: failing_get_def)

lemma failing_validates: "validate_event failing_get now e = validate_event mem_ingest now e"
  by (simp only: validate_event_def failing_simps)

lemma failing_first:
  "run (post_event failing_get ''merchant'' ''application/json'' ''merchant'' ''k'' '''') mem_start = (Inr (Accepted ''11''), snd posted)"
  by (simp add: posted_eval post_eval posted_request posted_valid failing_simps failing_validates)

lemma queued_again_eval:
  "queued_again = (Inr (Accepted ''14''), (snd posted)\<lparr>reads := 16, redis_st := (redis_st (snd posted))\<lparr>
     m_cells := [(''idempotency:k:merchant'', CStr ''{14'', Some 86400000)],
     m_new := [(''transactions:raw'', [\<lparr>entry_id = ''0'', entry_map = [''payload'' \<mapsto> Data ''merchant'']\<rparr>,
       \<lparr>entry_id = ''1'', entry_map = [''payload'' \<mapsto> Data ''merchant'']\<rparr>])]\<rparr>\<rparr>)"
  by (simp add: queued_again_def posted_eval post_eval posted_request posted_valid failing_simps failing_validates)

lemma failing_second:
  "run (post_event failing_get ''merchant'' ''application/json'' ''merchant'' ''k'' '''') (snd posted)
     = (Inr (Accepted ''14''), snd queued_again)"
  using queued_again_eval unfolding queued_again_def by (simp add: prod_eq_iff)

lemma mem_codec:
  assumes "ingest_to_json mem_ingest m = Inr payload" and "message_from_json mem_reader (from_utf8_lossy payload) = Inr msg"
  shows "represents (im_event m) (sm_event msg)"
proof -
  have lossy: "from_utf8_lossy (source_name src) = source_name src" for src
    by (rule from_utf8_lossy_ascii) (cases src; simp add: ascii_def)
  from assms(1) obtain x where x: "x \<in> set sample_messages" "im_event m = request_of (sm_event (snd x))"
    "payload = source_name (pe_source (sm_event (snd x)))"
    by (auto simp: mem_ingest_def request_of_def split: if_splits)
  with assms(2) have "msg = snd x"
    by (auto simp: mem_reader_def lossy sample_messages_def mem_message_def sample_event_def)
  with x(2) show ?thesis by (simp add: represents_def request_of_def)
qed

lemma sample_sources: "x \<in> set sample_messages \<Longrightarrow> fst x = source_name (pe_source (sm_event (snd x)))"
  by (auto simp: sample_messages_def mem_message_def sample_event_def)

lemma sample_valid:
  assumes "x \<in> set sample_messages"
  shows "validate_event mem_ingest 1735689600000 (request_of (sm_event (snd x))) = None"
proof -
  from assms consider "snd x = mem_message 1 Merchant 100 0" | "snd x = mem_message 2 Gateway 100 10"
    | "snd x = mem_message 3 Bank 90 0"
    by (auto simp: sample_messages_def)
  then show ?thesis
    by cases (simp_all add: validate_event_def request_of_def mem_message_def sample_event_def shown_uuid)
qed

lemma sample_queued:
  assumes "x \<in> set sample_messages"
  shows "queued_entry mem_ingest mem_reader (sm_event (snd x))"
proof -
  let ?rq = "request_of (sm_event (snd x))" and ?t = "fst x"
  let ?m = "\<lparr>im_event = ?rq, im_internal_event_id = [], im_correlation_id = [], im_ingested_at_ms = 0\<rparr>"
  let ?e = "\<lparr>entry_id = [], entry_map = [''payload'' \<mapsto> Data ?t]\<rparr>"
  have "ingest_to_json mem_ingest ?m = Inr ?t"
    using assms sample_sources[OF assms] by (auto simp: mem_ingest_def request_of_def)
  moreover have "entry_message mem_reader ?e = Some (snd x)"
  proof -
    have "from_utf8_lossy ?t = ?t"
      unfolding sample_sources[OF assms] by (rule from_utf8_lossy_ascii) (cases "pe_source (sm_event (snd x))"; simp add: ascii_def)
    moreover have "map_of sample_messages ?t = Some (snd x)" using assms by (auto simp: sample_messages_def)
    ultimately show ?thesis by (simp add: entry_message_def mem_reader_def)
  qed
  moreover have "validate_event mem_ingest 1735689600000 (im_event ?m) = None" using sample_valid[OF assms] by simp
  moreover have "entry_map ?e ''payload'' = Some (Data ?t)" by simp
  ultimately show ?thesis unfolding queued_entry_def by blast
qed

section \<open>Properties\<close>

text \<open>C21. The ingestor queues valid events only: whatever a request does, either nothing is added to the stream
  and the reply does not say accepted, or exactly one message is, of an event that passed validation
  with the source of its address; then the reply is accepted, or the answer of the stream was lost.\<close>

theorem only_valid_events_queued:
  assumes "ingest_server E content" and "run (post_event E source ctype body api_key header) s = (x, s')"
  shows "\<exists>r. x = Inr r \<and> (not_queued content s r s'
    \<or> (\<exists>parsed now. parse_body E ctype body = Inr parsed \<and> validate_event E now (parsed\<lparr>rq_source := source\<rparr>) = None
         \<and> queued E content (parsed\<lparr>rq_source := source\<rparr>) s r s'))"
  by (rule ingest_server.post_event_run[OF assms])

theorem only_valid_events_queued_witness:
  "fst posted = Inr (Accepted ''11'') \<and> (\<exists>now. validate_event mem_ingest now (request_of (sm_event (mem_message 1 Merchant 100 0))) = None)"
proof -
  have "run (post_event mem_ingest ''merchant'' ''application/json'' ''merchant'' ''k'' '''') mem_start = (Inr (Accepted ''11''), snd posted)"
    using posted_eval unfolding posted_def by (simp add: prod_eq_iff)
  from only_valid_events_queued[OF mem_ingest.ingest_server_axioms this] posted_request
  have "\<exists>now. validate_event mem_ingest now (request_of (sm_event (mem_message 1 Merchant 100 0))) = None"
    by (auto simp: not_queued_def)
  then show ?thesis by (simp add: posted_eval)
qed

text \<open>C22. A request is queued once a day, unless reading its key fails: after a request was accepted, and whatever
  requests with other keys came in between, a request with the same key adds nothing to the stream for 24 hours,
  or the \<open>GET\<close> of the taken key, in that very request, failed. The stored reply is a JSON object.\<close>

theorem repeated_request_not_queued:
  assumes "ingest_server E content"
    and "\<And>i. is_json_object E (accepted_to_json E i)"
    and "idempotency_key E body' api_key' header' = idempotency_key E body api_key header"
    and "cells (fst (content (redis_st s))) (idempotency_key E body api_key header) = None"
    and "run (post_event E source ctype body api_key header) s = (Inr (Accepted i), s1)"
    and "other_requests E (idempotency_key E body api_key header) s1 s2"
    and "run (post_event E source' ctype' body' api_key' header') s2 = (x, s3)"
  shows "queue_of content s3 = queue_of content s2
    \<or> clock (fst (content (redis_st s))) + day_ms \<le> clock (fst (content (redis_st s3)))
    \<or> key_read_fails E (idempotency_key E body api_key header) s2"
  by (rule ingest_server.request_twice[OF assms])

theorem repeated_request_not_queued_witness:
  "fst posted_again = Inr (Cached ''{11'') \<and> queue_of mem_content (snd posted_again) = [''merchant'']"
proof -
  have runs: "run (post_event mem_ingest ''merchant'' ''application/json'' ''merchant'' ''k'' '''') mem_start = (Inr (Accepted ''11''), snd posted)"
    "run (post_event mem_ingest ''merchant'' ''application/json'' ''merchant'' ''k'' '''') (snd posted) = (fst posted_again, snd posted_again)"
    using posted_eval unfolding posted_def posted_again_def by (simp_all add: prod_eq_iff)
  have free: "cells (fst (mem_content (redis_st mem_start))) (idempotency_key mem_ingest ''merchant'' ''k'' '''') = None"
    by (rule unused_key)
  have json: "is_json_object mem_ingest (accepted_to_json mem_ingest i)" for i
    by (simp add: mem_ingest_def)
  have read: "\<not> key_read_fails mem_ingest (idempotency_key mem_ingest ''merchant'' ''k'' '''') (snd posted)"
    by (simp add: key_read_fails_def posted_eval idempotency_key_def mem_setnx_def mem_get_value_def mem_lookup_def
        mem_start_def alive_def)
  have "clock (fst (mem_content (redis_st mem_start))) = 0" "clock (fst (mem_content (redis_st (snd posted_again)))) = 0"
    by (simp_all add: posted_again_eval posted_eval mem_content_def mem_start_def)
  then have "queue_of mem_content (snd posted_again) = queue_of mem_content (snd posted)"
    using repeated_request_not_queued[OF mem_ingest.ingest_server_axioms json refl free runs(1) no_request runs(2)] read
    by (simp add: day_ms_def)
  then show ?thesis by (simp add: posted_again_eval posted_eval queue_of_def mem_content_def mem_payloads_def)
qed

text \<open>C36. The exception is real: with a server that keeps every law, an accepted request that is posted again at
  once is accepted and queued a second time, because the error of reading its taken key is ignored.\<close>

theorem failed_get_queues_again:
  "\<exists>(E :: (mem_redis, pg_tables) ingest_env) s s1 s2 i j. ingest_server E mem_content
     \<and> (\<forall>k. is_json_object E (accepted_to_json E k))
     \<and> cells (fst (mem_content (redis_st s))) (idempotency_key E ''merchant'' ''k'' '''') = None
     \<and> run (post_event E ''merchant'' ''application/json'' ''merchant'' ''k'' '''') s = (Inr (Accepted i), s1)
     \<and> run (post_event E ''merchant'' ''application/json'' ''merchant'' ''k'' '''') s1 = (Inr (Accepted j), s2)
     \<and> clock (fst (mem_content (redis_st s2))) = clock (fst (mem_content (redis_st s)))
     \<and> queue_of mem_content s1 = queue_of mem_content s @ [''merchant'']
     \<and> queue_of mem_content s2 = queue_of mem_content s1 @ [''merchant'']"
proof -
  have "is_json_object failing_get (accepted_to_json failing_get k)" for k by (simp add: failing_simps)
  moreover have "cells (fst (mem_content (redis_st mem_start))) (idempotency_key failing_get ''merchant'' ''k'' '''') = None"
    by (rule unused_key)
  moreover have "clock (fst (mem_content (redis_st (snd queued_again)))) = clock (fst (mem_content (redis_st mem_start)))"
    by (simp add: queued_again_eval posted_eval mem_content_def)
  moreover have "queue_of mem_content mem_start = []" by (simp add: queue_of_def mem_content_def mem_payloads_def mem_start_def)
  moreover have "queue_of mem_content (snd posted) = [''merchant'']"
    by (simp add: posted_eval queue_of_def mem_content_def mem_payloads_def)
  moreover have "queue_of mem_content (snd queued_again) = [''merchant'', ''merchant'']"
    by (simp add: queued_again_eval queue_of_def mem_content_def mem_payloads_def)
  ultimately show ?thesis
    using failing_get.ingest_server_axioms failing_first failing_second by (metis append_Cons append_Nil)
qed

text \<open>C5. The verdict on ingested events is exact: in a complete window whose events were validated by the
  ingestor and read from its stream, the reconciler's \<open>i64\<close> comparison never wraps. The window is matched
  exactly when the currencies agree and the amounts add up as integers, the fee then being at most the amount.\<close>

theorem ingested_windows_exact:
  assumes "\<And>m payload msg. ingest_to_json I m = Inr payload \<Longrightarrow>
      message_from_json E (from_utf8_lossy payload) = Inr msg \<Longrightarrow> represents (im_event m) (sm_event msg)"
    and "events w Merchant = Some m" and "events w Gateway = Some g" and "events w Bank = Some b"
    and "queued_entry I E m" and "queued_entry I E g" and "queued_entry I E b"
  shows "(check_invariants w = Matched \<longleftrightarrow>
       pe_currency m = pe_currency g \<and> pe_currency g = pe_currency b
       \<and> sint (amount_minor m) = sint (amount_minor g)
       \<and> sint (amount_minor g) = sint (amount_minor b) + sint (fee_minor g))
     \<and> (check_invariants w = Matched \<longrightarrow> sint (fee_minor g) \<le> sint (amount_minor g))"
proof -
  have amounts: "0 \<le> sint (amount_minor g) \<and> 0 \<le> sint (fee_minor g)" "0 \<le> sint (amount_minor b)"
    using queued_entry_amounts[OF _ assms(6)] queued_entry_amounts[OF _ assms(7)] assms(1) by blast+
  have "sint (amount_minor g) < 2 ^ 63" "sint (fee_minor g) < 2 ^ 63"
    using sint_lt[of "amount_minor g"] sint_lt[of "fee_minor g"] by simp_all
  with amounts(1) have "- (2 ^ 63) \<le> sint (amount_minor g) - sint (fee_minor g)"
    "sint (amount_minor g) - sint (fee_minor g) < 2 ^ 63" by linarith+
  from matched_integers[OF assms(2-4) this] amounts(2) show ?thesis by auto
qed

theorem ingested_windows_exact_witness:
  "check_invariants ((new_partial 7 0 2000)\<lparr>events := map_of (map (\<lambda>(_, msg). (pe_source (sm_event msg), sm_event msg)) sample_messages)\<rparr>) = Matched"
proof -
  let ?w = "(new_partial 7 0 2000)\<lparr>events := map_of (map (\<lambda>(_, msg). (pe_source (sm_event msg), sm_event msg)) sample_messages)\<rparr>"
  have events: "events ?w Merchant = Some (sm_event (mem_message 1 Merchant 100 0))"
    "events ?w Gateway = Some (sm_event (mem_message 2 Gateway 100 10))"
    "events ?w Bank = Some (sm_event (mem_message 3 Bank 90 0))"
    by (simp_all add: sample_messages_def mem_message_def sample_event_def)
  have "queued_entry mem_ingest mem_reader (sm_event (mem_message 1 Merchant 100 0))"
    "queued_entry mem_ingest mem_reader (sm_event (mem_message 2 Gateway 100 10))"
    "queued_entry mem_ingest mem_reader (sm_event (mem_message 3 Bank 90 0))"
    using sample_queued[of "(''merchant'', mem_message 1 Merchant 100 0)"]
      sample_queued[of "(''gateway'', mem_message 2 Gateway 100 10)"]
      sample_queued[of "(''bank'', mem_message 3 Bank 90 0)"] by (simp_all add: sample_messages_def)
  from ingested_windows_exact[OF mem_codec events this] show ?thesis
    by (simp add: mem_message_def sample_event_def)
qed

end
