(* ===== verification/Due_Histories.thy ===== *)
theory Due_Histories imports Timeout_Pass Due_Sets
begin

text \<open>
  Which open windows have a deadline, without which the timer never looks at them, along a history of the
  reconciler: events handled, expired deadlines popped and their timeouts run, escalations, in any order and
  with any failure. The histories keep account of the transactions whose deadline a failure may have lost.
\<close>

section \<open>Histories\<close>

text \<open>One turn: an event is handled; a pass of the timer pops the expired deadlines and then runs their timeouts in
  its set of at most 50 tasks, in any interleaving and failing or not; the pop itself fails, having removed
  any number of due deadlines; a pass over the escalations. Turns do not overlap. \<open>D\<close> holds the
  transactions that may be open without a deadline: those of failed events and, after a failed pop, those that
  were due. A pass that closes a window settles its account.\<close>

inductive turn ::
  "('r, 'p) env \<Rightarrow> config \<Rightarrow> ('r \<Rightarrow> rview) \<Rightarrow> (int \<Rightarrow> int) \<Rightarrow> ('r, 'p) world \<times> uuid set \<Rightarrow> ('r, 'p) world \<times> uuid set \<Rightarrow> bool"
  for E cfg view dbl where
  event_handled: "run (handle_event E cfg msg) s = (Inr (), s') \<Longrightarrow> turn E cfg view dbl (s, D) (s', D)"
| event_failed: "run (handle_event E cfg msg) s = (Inl e, s') \<Longrightarrow>
    turn E cfg view dbl (s, D) (s', insert (pe_transaction_id (sm_event msg)) D)"
| timeouts: "run (expired_windows E) s = (Inr ids, t) \<Longrightarrow>
    (joinset 50 (timeout_task E cfg))\<^sup>*\<^sup>* (ids, [], t) ([], [], s') \<Longrightarrow> turn E cfg view dbl (s, D) (s', D - set ids)"
| pop_fails: "run (expired_windows E) s = (Inl e, s') \<Longrightarrow>
    turn E cfg view dbl (s, D)
      (s', D \<union> {tx. \<exists>i. deadline_of E view s tx = Some i \<and> i \<le> dbl (sint (utc_millis E (reads s)))})"
| escalations: "run (expired_escalations E) s = (r, t) \<Longrightarrow>
    (joinset 50 (escalation_task E cfg))\<^sup>*\<^sup>* (case r of Inr js \<Rightarrow> js | Inl _ \<Rightarrow> [], [], t) ([], [], s') \<Longrightarrow>
    turn E cfg view dbl (s, D) (s', D)"

definition due_except :: "('r, 'p) env \<Rightarrow> ('r \<Rightarrow> rview) \<Rightarrow> uuid set \<Rightarrow> ('r, 'p) world \<Rightarrow> bool" where
  "due_except E view D s \<longleftrightarrow> (\<forall>tx. tx \<notin> D \<longrightarrow> windows s tx \<noteq> None \<longrightarrow> deadline_of E view s tx \<noteq> None)"

lemma due_exceptI:
  assumes "due_except E view D s"
    and "\<And>tx. tx \<notin> D' \<Longrightarrow> windows s' tx = None \<or> deadline_of E view s' tx \<noteq> None
      \<or> tx \<notin> D \<and> windows s' tx = windows s tx \<and> deadline_of E view s' tx = deadline_of E view s tx"
  shows "due_except E view D' s'"
  using assms by (metis due_except_def)

section \<open>Pops and the map of windows\<close>

abbreviation same_windows :: "('r, 'p) world \<Rightarrow> ('r, 'p) world \<Rightarrow> bool" where
  "same_windows s s' \<equiv> windows s' = windows s"

lemma same_windows_calls: "steps same_windows (redis_call f)" "steps same_windows (read_clock c)"
  unfolding redis_call_def read_clock_def by (rule steps_atomic; auto split: prod.splits)+

lemma steps_option: "steps R p \<Longrightarrow> (\<And>x. steps R (q x)) \<Longrightarrow> steps R (case y of None \<Rightarrow> p | Some x \<Rightarrow> q x)"
  by (cases y) simp_all

lemma pop_loop_windows: "steps same_windows (pop_deadlines_loop E ms acc)"
proof (induction ms arbitrary: acc)
  case (Cons m ms)
  show ?case
    unfolding pop_deadlines_loop.simps
    by (intro steps_and_then steps_map_err same_windows_calls steps_if steps_option Cons.IH)
qed simp

lemma expired_windows_steps: "steps same_windows (expired_windows E)"
  unfolding expired_windows_def pop_expired_deadlines_def utc_now_def
  by (intro steps_and_then steps_map_err same_windows_calls pop_loop_windows)

lemma expired_windows_run: "run (expired_windows E) s = (x, s') \<Longrightarrow> windows s' = windows s"
proof -
  assume run: "run (expired_windows E) s = (x, s')"
  have "keeps (\<lambda>t. windows t = windows s) (\<lambda>_. True) (expired_windows E)"
    by (rule steps_keeps[OF expired_windows_steps]) simp
  from keeps_run[OF this _ run] show ?thesis by simp
qed

section \<open>A pop that fails\<close>

context redis_server
begin

lemma zrem_others:
  assumes "zset_ok view k M s" and law: "complies view rlater f (sp_zrem k m)" and "f (redis_st s) = (x, r)" and "m' \<noteq> m"
  shows "zmembers view k (s\<lparr>redis_st := r\<rparr>) m' = zmembers view k s m'"
  using law assms(3)
proof (cases rule: complies_any)
  case (same V)
  then show ?thesis using zset_ok_later[OF assms(1) same(1)] by (simp add: zmembers_def)
next
  case (effect V y)
  from zset_ok_later[OF assms(1) effect(1)] have "cells V k = cells (view (redis_st s)) k" .
  with assms(1,4) effect(2) show ?thesis
    by (cases rule: zset_ok_cases)
      (auto simp: sp_zrem_def zmembers_def zset_of_def split: if_splits dest: fun_cong[where x = m'])
qed

lemma pop_loop_others:
  "deadlines_ok E view s \<Longrightarrow> run (pop_deadlines_loop E ms acc) s = (x, s') \<Longrightarrow> m \<notin> set ms \<Longrightarrow>
     zmembers view deadlines_key s' m = zmembers view deadlines_key s m"
proof (induction ms arbitrary: s acc)
  case (Cons m0 ms)
  obtain y r where r: "zrem (rds E) deadlines_key m0 (redis_st s) = (y, r)" by fastforce
  let ?t = "s\<lparr>redis_st := r\<rparr>"
  have ok: "deadlines_ok E view ?t"
    using zset_ok_zrem[OF Cons.prems(1)[unfolded deadlines_ok_def] zrem_law r] by (simp add: deadlines_ok_def)
  have same: "zmembers view deadlines_key ?t m = zmembers view deadlines_key s m"
    using zrem_others[OF Cons.prems(1)[unfolded deadlines_ok_def] zrem_law r] Cons.prems(3) by simp
  from Cons.prems(2) r consider "s' = ?t" | acc' where "run (pop_deadlines_loop E ms acc') ?t = (x, s')"
    by (auto simp: run_simps map_sum_def split: sum.splits if_splits option.splits)
  then show ?case using Cons.IH[OF ok] Cons.prems(3) same by cases auto
qed (simp add: run.simps(1))

text \<open>Whatever becomes of a pop, only deadlines that were due are gone.\<close>

lemma pop_keeps_later:
  assumes ok: "deadlines_ok E view s" and run: "run (pop_expired_deadlines E now) s = (x, s')"
    and later: "\<nexists>i. deadline_of E view s tx = Some i \<and> i \<le> dbl (sint now)"
  shows "deadline_of E view s' tx = deadline_of E view s tx"
proof -
  obtain z r where r: "zrangebyscore (rds E) deadlines_key now (redis_st s) = (z, r)" by fastforce
  define y t where "y = map_sum Redis id z" and "t = s\<lparr>redis_st := r\<rparr>"
  with r have ms: "run (rcall (zrangebyscore (rds E) deadlines_key now)) s = (y, t)" by (simp add: run_simps)
  have t: "deadlines_ok E view t" "deadline_of E view t = deadline_of E view s"
    using leaves_deadlines[OF ok, of t] leaves_call[OF zrangebyscore_law frame_zrange r] by (simp_all add: t_def)
  show ?thesis
  proof (cases y)
    case (Inl e)
    with run ms t show ?thesis by (auto simp: pop_expired_deadlines_def run_and_then)
  next
    case (Inr members)
    with run ms have loop: "run (pop_deadlines_loop E members []) t = (x, s')"
      by (simp add: pop_expired_deadlines_def run_and_then)
    note z = zrange_step[OF ok[unfolded deadlines_ok_def] zrangebyscore_law ms[unfolded Inr]]
    have "uuid_str E tx \<notin> set members" using later by (simp add: z(4) deadline_of_def)
    from pop_loop_others[OF t(1) loop this] fun_cong[OF t(2), of tx] show ?thesis by (simp add: deadline_of_def)
  qed
qed

lemma expired_windows_split:
  assumes "run (expired_windows E) s = (x, s')"
  obtains y where "run (pop_expired_deadlines E (utc_millis E (reads s))) (s\<lparr>reads := Suc (reads s)\<rparr>) = (y, s')"
    and "x = map_sum Reconciler id y"
  using assms by (auto simp: expired_windows_def run_simps split: prod.splits)

lemma expired_windows_ok:
  "run (expired_windows E) s = (x, s') \<Longrightarrow> queues_ok E view s \<and> windows_ok s \<Longrightarrow> queues_ok E view s' \<and> windows_ok s'"
proof -
  have "keeps (\<lambda>s. queues_ok E view s \<and> windows_ok s) (\<lambda>_. True) (expired_windows E)"
    unfolding expired_windows_def by (intro queues.safe_rules queues.safe_database queues.safe_pops(1)[where Z = UNIV] refl)
  then show "run (expired_windows E) s = (x, s') \<Longrightarrow> queues_ok E view s \<and> windows_ok s \<Longrightarrow> queues_ok E view s' \<and> windows_ok s'"
    by (auto dest: keeps_run)
qed

text \<open>A set of tasks that are confined to some transactions.\<close>

lemma joinset_confined:
  assumes "(joinset limit task)\<^sup>*\<^sup>* (xs, [], s) (todo, live, s')" and "queues_ok E view s" and "windows_ok s"
    and "\<And>x. x \<in> set xs \<Longrightarrow> keeps (\<lambda>t. confined E view {} X s t \<and> windows_ok t) (\<lambda>_. True) (task x)"
  shows "confined E view {} X s s' \<and> windows_ok s'"
  using joinset_invariant[OF assms(1), where I = "\<lambda>t. confined E view {} X s t \<and> windows_ok t"] assms(2-4)
  by (simp add: confined_refl)

lemma timeouts_turn:
  assumes "run (expired_windows E) s = (Inr ids, t)" and "(joinset 50 (timeout_task E cfg))\<^sup>*\<^sup>* (ids, [], t) ([], [], s')"
    and "queues_ok E view s" and "windows_ok s" and "due_except E view D s"
  shows "queues_ok E view s' \<and> windows_ok s' \<and> due_except E view (D - set ids) s'"
proof -
  have t: "queues_ok E view t" "windows_ok t" using expired_windows_ok[OF assms(1)] assms(3,4) by simp_all
  have "conf.safe {} (set ids) t (timeout_task E cfg x)" if "x \<in> set ids" for x
    unfolding timeout_task_def using that by (intro conf.safe_ignore conf.safe_handle_timeout)
  from joinset_confined[OF assms(2) t this] have conf: "confined E view {} (set ids) t s'" "windows_ok s'" by simp_all
  from assms(1) obtain y where pop: "run (pop_expired_deadlines E (utc_millis E (reads s))) (s\<lparr>reads := Suc (reads s)\<rparr>) = (y, t)"
      "Inr ids = map_sum Reconciler id y"
    by (rule expired_windows_split)
  then have "y = Inr ids" by (cases y) simp_all
  with pop(1) popped_deadlines[of "s\<lparr>reads := Suc (reads s)\<rparr>"] assms(3)
  have "deadline_of E view t = deadline_of E view (s\<lparr>reads := Suc (reads s)\<rparr>) |` (- set ids)"
    by (simp add: queues_ok_def)
  then have left: "tx \<notin> set ids \<Longrightarrow> deadline_of E view t tx = deadline_of E view s tx" for tx
    by (simp add: deadline_of_def zmembers_def)
  have "windows s' tx = None" if "tx \<in> set ids" for tx
    using closed_in_set[OF assms(2) that] by simp
  moreover have "windows s' tx = windows s tx" "deadline_of E view s' tx = deadline_of E view s tx" if "tx \<notin> set ids" for tx
    using conf(1) that left[OF that] expired_windows_run[OF assms(1)] by (simp_all add: confined_def)
  ultimately have "due_except E view (D - set ids) s'"
    by (intro due_exceptI[OF assms(5)]) blast
  with conf show ?thesis by (simp add: confined_def)
qed

lemma event_turn:
  assumes "run (handle_event E cfg msg) s = (x, s')" and "queues_ok E view s" and "windows_ok s" and "due_except E view D s"
  shows "queues_ok E view s' \<and> windows_ok s' \<and> due_except E view (insert (pe_transaction_id (sm_event msg)) D) s'"
    and "x = Inr () \<Longrightarrow> due_except E view D s'"
proof -
  let ?tx = "pe_transaction_id (sm_event msg)"
  note conf = handle_event_confined[OF assms(2,3,1)]
  have others: "windows s' tx = windows s tx \<and> deadline_of E view s' tx = deadline_of E view s tx" if "tx \<noteq> ?tx" for tx
    using conf that by (simp add: confined_def)
  have "windows_ok s'" by (rule queues.run_keeps(2)[OF queues.safe_handle_event[OF UNIV_I UNIV_I UNIV_I] assms(2,3,1)])
  moreover have "due_except E view (insert ?tx D) s'"
    using others by (intro due_exceptI[OF assms(4)]) blast
  ultimately show "queues_ok E view s' \<and> windows_ok s' \<and> due_except E view (insert ?tx D) s'"
    using conf by (simp add: confined_def)
  show "due_except E view D s'" if ok: "x = Inr ()"
  proof (cases "?tx \<in> D")
    case True
    show ?thesis by (rule due_exceptI[OF assms(4)]) (use True others in metis)
  next
    case False
    with assms(2-4) have "due_inv ?tx s" by (auto simp: due_if_open_def due_except_def)
    from hoare_Inr[OF handle_event_due this assms(1)[unfolded ok]]
    have "windows s' ?tx = None \<or> deadline_of E view s' ?tx \<noteq> None" by (simp add: due_if_open_def)
    then show ?thesis by (intro due_exceptI[OF assms(4)]) (use others in metis)
  qed
qed

lemma failed_pop_turn:
  assumes "run (expired_windows E) s = (Inl e, s')" and "queues_ok E view s" and "windows_ok s" and "due_except E view D s"
  shows "queues_ok E view s' \<and> windows_ok s' \<and> due_except E view
    (D \<union> {tx. \<exists>i. deadline_of E view s tx = Some i \<and> i \<le> dbl (sint (utc_millis E (reads s)))}) s'"
proof -
  from assms(1) obtain y where pop: "run (pop_expired_deadlines E (utc_millis E (reads s))) (s\<lparr>reads := Suc (reads s)\<rparr>) = (y, s')"
    by (rule expired_windows_split)
  have "deadline_of E view (s\<lparr>reads := n\<rparr>) = deadline_of E view s" for n
    by (simp add: deadline_of_def zmembers_def fun_eq_iff)
  with pop_keeps_later[OF _ pop] assms(2)
  have "deadline_of E view s' tx = deadline_of E view s tx"
    if "\<nexists>i. deadline_of E view s tx = Some i \<and> i \<le> dbl (sint (utc_millis E (reads s)))" for tx
    using that by (simp add: queues_ok_def)
  with expired_windows_ok[OF assms(1)] expired_windows_run[OF assms(1)] assms(2-4) show ?thesis
    by (auto simp: due_except_def simp del: not_None_eq)
qed

lemma escalations_turn:
  assumes "run (expired_escalations E) s = (r, t)" and "(joinset 50 (escalation_task E cfg))\<^sup>*\<^sup>* (js, [], t) ([], [], s')"
    and "queues_ok E view s" and "windows_ok s" and "due_except E view D s"
  shows "queues_ok E view s' \<and> windows_ok s' \<and> due_except E view D s'"
proof -
  have "conf.safe {} {} s (expired_escalations E)"
    unfolding expired_escalations_def by (intro conf.safe_rules conf.safe_database conf.safe_pops)
  from keeps_run[OF this _ assms(1)] have t: "confined E view {} {} s t" "windows_ok t"
    using confined_refl[OF assms(3)] assms(4) by simp_all
  then have "queues_ok E view t" by (simp add: confined_def)
  from joinset_confined[OF assms(2) this t(2) conf.safe_escalation] t assms(5) show ?thesis
    by (simp add: confined_def due_except_def)
qed

lemma turn_due:
  assumes "turn E cfg view dbl c c'"
  shows "queues_ok E view (fst c) \<and> windows_ok (fst c) \<and> due_except E view (snd c) (fst c) \<Longrightarrow>
    queues_ok E view (fst c') \<and> windows_ok (fst c') \<and> due_except E view (snd c') (fst c')"
  using assms by cases (auto dest: event_turn failed_pop_turn timeouts_turn escalations_turn)

lemma history_due:
  "(turn E cfg view dbl)\<^sup>*\<^sup>* c c' \<Longrightarrow> queues_ok E view (fst c) \<and> windows_ok (fst c) \<and> due_except E view (snd c) (fst c) \<Longrightarrow>
    queues_ok E view (fst c') \<and> windows_ok (fst c') \<and> due_except E view (snd c') (fst c')"
  by (induction rule: rtranclp_induct) (blast dest: turn_due)+

end

section \<open>Properties\<close>

text \<open>C6. No open window is forgotten unless something failed. Along any history in which the handling of events,
  the passes over expired deadlines and those over escalations do not overlap each other, an open window has a
  deadline in Redis, with two exceptions: the handling of one of its events returned an error, or a pop of
  expired deadlines did when it was due, and no pass has timed it out since. Popping removes the deadline first,
  but the pass ends with the window closed, in whatever order its timeouts run and even if they fail.\<close>

theorem windows_stay_due:
  assumes "redis_server E view dbl" and "queues_ok E view s" and "windows_ok s"
    and "\<And>tx. windows s tx \<noteq> None \<Longrightarrow> tx \<notin> D \<Longrightarrow> deadline_of E view s tx \<noteq> None"
    and "(turn E cfg view dbl)\<^sup>*\<^sup>* (s, D) (s', D')"
    and "windows s' tx \<noteq> None" and "tx \<notin> D'"
  shows "deadline_of E view s' tx \<noteq> None"
proof -
  have "due_except E view D s" using assms(4) by (simp add: due_except_def)
  with redis_server.history_due[OF assms(1,5)] assms(2,3,6,7) show ?thesis by (simp add: due_except_def)
qed

text \<open>From the first event on, long after its deadline: a pass times the window out, and the next event of the
  transaction opens it again.\<close>

definition timed_out :: "(mem_redis, pg_tables) world" where
  "timed_out = snd (run (for_each [7] (timeout_task mem_env mem_cfg))
     (snd (run (expired_windows mem_env) (one_event\<lparr>reads := 5000\<rparr>))))"

definition reopened :: "(mem_redis, pg_tables) world" where
  "reopened = snd (run (handle_event mem_env mem_cfg (mem_message 2 Gateway 100 10)) timed_out)"

lemma one_event_due: "deadline_of mem_env mem_view one_event 7 \<noteq> None" "tx \<noteq> 7 \<Longrightarrow> windows one_event tx = None"
  by (simp_all add: deadline_of_def zmembers_def zset_of_def one_event_eval services_eval deadlines_key_def)

lemma expired_first: "fst (run (expired_windows mem_env) (one_event\<lparr>reads := 5000\<rparr>)) = Inr [7]"
  by (simp add: expired_windows_def pop_expired_deadlines_def one_event_eval engine_eval services_eval)

lemma reopens: "fst (run (handle_event mem_env mem_cfg (mem_message 2 Gateway 100 10)) timed_out) = Inr ()"
  "windows reopened 7 \<noteq> None"
  by (simp_all add: reopened_def timed_out_def timeout_task_def expired_windows_def pop_expired_deadlines_def one_event_eval engine_eval services_eval
    scenario_eval)

theorem windows_stay_due_witness:
  "windows reopened 7 \<noteq> None \<and> deadline_of mem_env mem_view reopened 7 \<noteq> None"
proof -
  let ?s = "one_event\<lparr>reads := 5000\<rparr>" and ?t = "snd (run (expired_windows mem_env) (one_event\<lparr>reads := 5000\<rparr>))"
  have "run (expired_windows mem_env) ?s = (Inr [7], ?t)" using expired_first by (simp add: prod_eq_iff)
  moreover have "(joinset 50 (timeout_task mem_env mem_cfg))\<^sup>*\<^sup>* ([7], [], ?t) ([], [], timed_out)"
    unfolding timed_out_def by (rule joinset_sequential) (auto simp: timeout_task_run)
  ultimately have "turn mem_env mem_cfg mem_view (\<lambda>i. i) (?s, {}) (timed_out, {} - set [7])" by (rule timeouts)
  moreover have "run (handle_event mem_env mem_cfg (mem_message 2 Gateway 100 10)) timed_out = (Inr (), reopened)"
    using reopens(1) by (simp add: reopened_def prod_eq_iff)
  then have "turn mem_env mem_cfg mem_view (\<lambda>i. i) (timed_out, {}) (reopened, {})" by (rule event_handled)
  ultimately have history: "(turn mem_env mem_cfg mem_view (\<lambda>i. i))\<^sup>*\<^sup>* (?s, {}) (reopened, {})" by simp
  have ok: "queues_ok mem_env mem_view ?s" "windows_ok ?s" using one_event_ok by (simp_all add: windows_ok_simps)
  have due: "deadline_of mem_env mem_view ?s tx \<noteq> None" if "windows ?s tx \<noteq> None" for tx
    using that one_event_due by (cases "tx = 7") (simp_all add: deadline_of_def zmembers_def)
  from windows_stay_due[OF mem.redis_server_axioms ok due history reopens(2)] reopens(2) show ?thesis by simp
qed

end
