(* ===== verification/Restore_Scan.thy ===== *)
theory Restore_Scan imports Restart
begin

text \<open>
  The loop over \<open>SCAN\<close> in \<open>load_all_windows\<close> (\<open>src/matcher/src/store.rs\<close>) ends whenever the server's cursors
  advance, so that start-up neither hangs nor depends on the fuel that bounds the loop in the model.
\<close>

lemma map_sum_Inr: "map_sum f id x = Inr y \<longleftrightarrow> x = Inr y"
  by (cases x) simp_all

section \<open>Advancing cursors\<close>

text \<open>Redis documents that the iteration of a bounded collection ends. Stated as a rank that falls from each page
  to the next, until the cursor 0 (the server counts its cursors in a fixed order, from reversed binary
  numbers). A call may fail at any time, and what the pages hold is not restricted.\<close>

definition cursors_advance :: "('r, 'p) env \<Rightarrow> (u64 \<Rightarrow> nat) \<Rightarrow> bool" where
  "cursors_advance E rank \<longleftrightarrow> (\<forall>c r n keys r'. scan (rds E) c ''window:*'' 100 r = (Inr (n, keys), r') \<longrightarrow>
     n \<noteq> 0 \<longrightarrow> rank n < rank c)"

lemma scan_page:
  assumes "cursors_advance E rank" and "run (rcall (scan (rds E) c ''window:*'' 100)) s = (Inr (n, keys), s')" and "n \<noteq> 0"
  shows "rank n < rank c"
proof -
  from assms(2) obtain r' where "scan (rds E) c ''window:*'' 100 (redis_st s) = (Inr (n, keys), r')"
    by (auto simp: run_simps map_sum_def split: prod.splits sum.splits)
  with assms(1,3) show ?thesis unfolding cursors_advance_def by blast
qed

text \<open>More fuel than the rank of the cursor is never used up, and changes nothing.\<close>

lemma load_all_ends:
  assumes "cursors_advance E rank"
  shows "rank c < fuel \<Longrightarrow> fst (run (load_all_windows fuel E c acc) s) \<noteq> Inr None"
proof (induction fuel arbitrary: c acc s)
  case (Suc fuel)
  have next_page: "rank n < fuel" if "run (rcall (scan (rds E) c ''window:*'' 100)) s = (Inr (n, keys), s')" "n \<noteq> 0" for n keys s'
    using scan_page[OF assms that] Suc.prems by linarith
  show ?case
    using Suc.IH next_page
    by (auto simp: run_and_then run.simps(1) split: prod.split sum.split)
qed simp

lemma load_all_more:
  assumes "cursors_advance E rank"
  shows "rank c < fuel \<Longrightarrow> run (load_all_windows (fuel + k) E c acc) s = run (load_all_windows fuel E c acc) s"
proof (induction fuel arbitrary: c acc s)
  case (Suc fuel)
  have next_page: "rank n < fuel" if "run (rcall (scan (rds E) c ''window:*'' 100)) s = (Inr (n, keys), s')" "n \<noteq> 0" for n keys s'
    using scan_page[OF assms that] Suc.prems by linarith
  show ?case
    using Suc.IH next_page
    by (auto simp: run_and_then run.simps(1) split: prod.split sum.split)
qed simp

lemma restore_ends:
  assumes "cursors_advance E rank" and "rank 0 < fuel"
  shows "fst (run (restore_from_redis fuel E) s) \<noteq> Inr None"
    and "run (restore_from_redis (fuel + k) E) s = run (restore_from_redis fuel E) s"
proof -
  show "fst (run (restore_from_redis fuel E) s) \<noteq> Inr None"
    using load_all_ends[OF assms, of "[]" s]
    by (auto simp: restore_from_redis_def run_simps map_sum_Inr split: prod.splits sum.splits option.splits)
  show "run (restore_from_redis (fuel + k) E) s = run (restore_from_redis fuel E) s"
    by (simp add: restore_from_redis_def run_and_then run_map_err load_all_more[OF assms])
qed

lemma fst_run: "run p s = (x, s') \<Longrightarrow> fst (run p s) = x"
  by simp

section \<open>Properties\<close>

text \<open>C19. Start-up ends: when the server's cursors advance, the scan that restores the windows ends within as many
  pages as the rank of the first cursor. So with more fuel than that start-up answers with an error or the
  configuration and never runs out, and any larger fuel gives the same answer and state.\<close>

theorem startup_scan_ends:
  assumes "cursors_advance E rank" and "rank 0 < fuel"
  shows "fst (run (startup fuel E loaded pool migrate open_client manager) s) \<noteq> Inr None
    \<and> run (startup (fuel + k) E loaded pool migrate open_client manager) s
        = run (startup fuel E loaded pool migrate open_client manager) s"
proof
  show "fst (run (startup fuel E loaded pool migrate open_client manager) s) \<noteq> Inr None"
    using fst_run restore_ends(1)[OF assms]
    by (fastforce simp: startup_def run_and_then run_map_err run.simps(1) map_sum_Inr split: prod.splits sum.splits)
  show "run (startup (fuel + k) E loaded pool migrate open_client manager) s
      = run (startup fuel E loaded pool migrate open_client manager) s"
    by (simp add: startup_def run_and_then run_map_err restore_ends(2)[OF assms] cong: sum.case_cong)
qed

text \<open>A server that answers in two pages, the first of them empty.\<close>

definition paged_env :: "(mem_redis, pg_tables) env" where
  "paged_env = durable_env\<lparr>rds := mem_rds\<lparr>scan := (\<lambda>c pat n r. if c = 0 then (Inr (1, []), r) else mem_scan c pat n r)\<rparr>\<rparr>"

lemma paged_cursors: "cursors_advance paged_env (\<lambda>c. if c = 0 then 1 else 0)"
  by (auto simp: cursors_advance_def paged_env_def mem_scan_def split: if_splits)

definition paged_boot :: "nat \<Rightarrow> (anyhow + config option) \<times> (mem_redis, pg_tables) world" where
  "paged_boot fuel = run (startup fuel paged_env (Inr mem_cfg) (\<lambda>_ _ _ T. (Inr (), T)) (\<lambda>T. (Inr (), T)) Inr mem_manager)
     (one_event\<lparr>reads := 5000\<rparr>)"

lemma paged_env_simps:
  "rds paged_env = mem_rds\<lparr>scan := (\<lambda>c pat n r. if c = 0 then (Inr (1, []), r) else mem_scan c pat n r)\<rparr>"
  "window_from_json paged_env = window_from_json durable_env"
  by (simp_all add: paged_env_def)

theorem startup_scan_ends_witness:
  "fst (paged_boot 1) = Inr None \<and> fst (paged_boot 2) = Inr (Some mem_cfg) \<and> paged_boot 102 = paged_boot 2"
proof -
  have "fst (paged_boot 1) = Inr None" "fst (paged_boot 2) = Inr (Some mem_cfg)"
    by (simp_all add: paged_boot_def boot_eval paged_env_simps one_event_eval engine_eval services_eval scenario_eval
      eval_nat_numeral)
  moreover have "paged_boot (2 + 100) = paged_boot 2"
    unfolding paged_boot_def by (rule conjunct2[OF startup_scan_ends[OF paged_cursors]]) simp
  ultimately show ?thesis by simp
qed

end
