(* ===== verification/Spec2Isabelle.thy ===== *)
theory Spec2Isabelle imports Supervisor Stats Event_Claims Window_Race Three_Events Timeout_Pass Late_Events
  Saved_Windows Due_Sets Unit_Tests Latency_Lists Repeated_Reports Restart Ingested
  Due_Histories Restore_Scan
begin

text \<open>
  CodeStorm's reconciler (\<open>src/matcher\<close>, Rust): the service that reads payment events of
  three sources (merchant, gateway, bank) from a Redis stream, groups them into windows per
  transaction, compares amounts, fees and currencies when a window is complete or its time is up,
  and writes the verdict, the details and the incidents to Postgres.

  \<^item> \<open>Prelude\<close>: machine integers (\<open>i64\<close>, \<open>u64\<close> as words), decimal printing and parsing,
    string helpers. \<open>Utf8_Text\<close>: the standard library's text functions on UTF-8 bytes.
  \<^item> \<open>Async\<close>: an \<open>async fn\<close> is a resumption that awaits atomic operations on the shared
    state. \<open>run\<close> executes it alone, \<open>interleave\<close> executes several tasks in any order of their
    steps, \<open>joinset\<close> is tokio's bounded set of spawned tasks. \<open>keeps\<close> proves invariants
    for all of them.
  \<^item> \<open>Services\<close>: everything the program calls but does not define (redis, sqlx, serde_json,
    clocks, \<open>f64\<close>, hash map order) as the fields of an environment; the errors
    (\<open>error.rs\<close>); the state shared by the tasks. \<open>complies\<close> says what it means that a call
    has its documented effect, or fails before or after having it.
  \<^item> \<open>Model\<close>: \<open>model.rs\<close>. \<open>Config\<close>: \<open>config.rs\<close>. \<open>Store_Redis\<close>, \<open>Store_Pg\<close>,
    \<open>Stats\<close>: \<open>store.rs\<close>. \<open>Matcher\<close>: \<open>matcher.rs\<close> and \<open>publisher.rs\<close>.
    \<open>Stream_Task\<close>: \<open>stream.rs\<close>. \<open>Timer_Task\<close>: \<open>timer.rs\<close>. \<open>Startup\<close>, \<open>Health\<close>,
    \<open>Supervisor\<close>: \<open>main.rs\<close>. \<open>Unit_Tests\<close>: the tests of \<open>model.rs\<close>. \<open>Ingestor\<close>: the producer of the
    stream, \<open>src/services/ingestor/handler.go\<close>.
  \<^item> \<open>Redis_Laws\<close>: the documented effect of every Redis command the store issues, as the
    locale \<open>redis_server\<close>; \<open>Store_Pg\<close> has \<open>pg_server\<close> for the SQL statements.
    \<open>Memory_Services\<close> implements both in memory, so that the laws are met by something and
    the engine can be evaluated (\<open>Evaluation\<close>).
  \<^item> \<open>Task_Invariants\<close>: the locale \<open>task_invariant\<close> derives, from what an invariant has to
    withstand command by command, that every task keeps it at every step. \<open>Task_Redis\<close>,
    \<open>Event_Claims\<close>, \<open>Saved_Windows\<close> and \<open>Restart\<close> interpret it.

  The properties, by theory:

  \<^item> \<open>Model\<close>, \<open>Store_Pg\<close>, \<open>Stats\<close>, \<open>Health\<close>: the pure functions (the comparison of a window, the
    details, the labels of the schema, the statistics, the endpoint's answers).
  \<^item> \<open>Window_Lifecycle\<close>, \<open>Window_Race\<close>: a timeout closes a window everywhere, transactions do not
    disturb each other, and one overlap of two handlers loses a deadline. \<open>Due_Histories\<close>: without overlaps
    every open window keeps its deadline along any history of events, timer passes and failures, but for the
    transactions whose events or pops failed.
  \<^item> \<open>Engine_Tables\<close> (facts about the tables that survive), \<open>Scenario\<close>, \<open>Verdicts\<close>,
    \<open>Three_Events\<close>: what a handler has stored when it returns \<open>Ok\<close>, from one event to all three.
  \<^item> \<open>Incidents\<close>: reporting schedules an escalation; a recorded incident is never changed but by one
    escalation. \<open>Late_Events\<close>: an event after the verdict overturns it. \<open>Repeated_Reports\<close>: a failed
    publication makes the window's timeout report again. \<open>Latency_Lists\<close>: which latencies are kept.
  \<^item> \<open>Event_Claims\<close>: an event id is handled once. \<open>Saved_Windows\<close>: the saved copy is the window in the
    map. \<open>Due_Sets\<close>: windows and due times under every interleaving, and several timers popping at once.
  \<^item> \<open>Timeout_Pass\<close>: every execution of the concurrent timeout pass closes its windows.
  \<^item> \<open>Supervisor\<close>: the workers never end, and what ends the process. \<open>Restart\<close>: lives of the process
    over the same services, each stopped at any step; \<open>startup\<close> restores what the last one saved.
    \<open>Restore_Scan\<close>: that scan ends when the server's cursors advance.
  \<^item> \<open>Ingested\<close>: the ingestor adds only validated events to the stream, and each request once a day
    unless reading its idempotency key fails; on windows of such events the reconciler's \<open>i64\<close>
    comparison is the integer one.

  Bounds. \<open>load_all_windows\<close> takes the number of scan pages as fuel, because nothing in the
  program bounds it: \<open>None\<close> is a scan that has not ended, and \<open>Restore_Scan\<close> tells how much fuel
  is enough. The endless loops of the workers are their first \<open>n\<close> rounds, for any \<open>n\<close>. All other
  recursion is structural or proved to end. The 50 concurrent timeout tasks are the code's own bound.

  Not modelled: panics of spawned tasks, logging, sleeping, sockets, the delivery of signals and the
  spawning itself in \<open>main\<close> (the spawned tasks are, with what ends them); listing the environment (the \<open>envy\<close> crate),
  which is the map of variables \<open>from_env\<close> takes; what happens inside the libraries that connect and
  migrate, which are arguments of \<open>startup\<close>; the test of \<open>model.rs\<close> on the JSON text of an event, since
  the encoder is serde's; the ingestor's server set-up and the \<open>events\<close> table, which the reconciler
  never reads; and the emulators, the read API and the dashboard, which only share the stream and the
  tables with the reconciler.
\<close>

end
